theory Spec2Isabelle
  imports Main "HOL-Library.Word"
begin

section \<open>Data model\<close>

text \<open>
  Tasks, mutexes, semaphores, condition variables, message queues and timers are
  statically allocated C objects that the kernel reaches through pointers. In this
  development an object is named by a natural number (its address) and looked up in a
  store of the kernel state. A task queue, which the C code keeps as a linked list of
  nodes that each point to a task, is the list of the tasks its nodes point to, head
  first.
\<close>

subsection \<open>task.h\<close>

datatype taskStatusType =
  TASK_STATUS_READY | TASK_STATUS_RUNNING | TASK_STATUS_BLOCKED | TASK_STATUS_SUSPENDED

datatype blockedReasonType =
  BLOCK_REASON_NONE | SLEEP | WAIT_FOR_SEMAPHORE | WAIT_FOR_MUTEX | WAIT_FOR_MSG_QUEUE_DATA
  | WAIT_FOR_MSG_QUEUE_SPACE | WAIT_FOR_COND_VAR | WAIT_FOR_TIMER_TIMEOUT

datatype wakeupReasonType =
  WAKEUP_REASON_NONE | WAIT_TIMEOUT | SLEEP_TIME_TIMEOUT | SEMAPHORE_TAKEN | MUTEX_LOCKED
  | MSG_QUEUE_DATA_AVAILABLE | MSG_QUEUE_SPACE_AVAILABE | COND_VAR_SIGNALLED | TIMER_TIMEOUT
  | RESUME

text \<open>
  The task control block \<^verbatim>\<open>taskHandleType\<close>. The entry function and its parameter are
  never read by the functions modelled here and are left out. \<^verbatim>\<open>priority\<close> is a
  \<^verbatim>\<open>uint8_t\<close>, the tick counter a \<^verbatim>\<open>uint32_t\<close>.
\<close>

record taskHandle =
  stackPointer :: "32 word"
  remainingSleepTicks :: "32 word"
  status :: taskStatusType
  blockedReason :: blockedReasonType
  wakeupReason :: wakeupReasonType
  priority :: "8 word"

definition TASK_NO_WAIT :: "32 word" where
  "TASK_NO_WAIT = 0"

definition TASK_MAX_WAIT :: "32 word" where
  "TASK_MAX_WAIT = 0xffffffff"

subsection \<open>Synchronisation objects and timers\<close>

text \<open>
  The structures below are declared in headers that are not among the sources
  (\<^verbatim>\<open>mutex.h\<close>, \<^verbatim>\<open>semaphore.h\<close>, \<^verbatim>\<open>conditionVariable.h\<close>, \<^verbatim>\<open>messageQueue.h\<close>,
  \<^verbatim>\<open>timer.h\<close>, \<^verbatim>\<open>retCodes.h\<close>). Their fields are the ones the C files read and write,
  with the types the specification's data model gives them: the sentinel-carrying
  \<^verbatim>\<open>ownerDefaultPriority\<close> and the semaphore counters are integers, the sizes and
  indices of a message queue are natural numbers, tick counters are 32-bit like the
  \<^verbatim>\<open>uint32_t\<close> arguments they are assigned from. Each wait queue field carries the
  name of its structure as a prefix, since one theory cannot declare the field name
  \<^verbatim>\<open>waitQueue\<close> three times.
\<close>

record mutexHandle =
  locked :: bool
  ownerTask :: "nat option"
  ownerDefaultPriority :: int
  mutexWaitQueue :: "nat list"

record semaphoreHandle =
  count :: int
  maxCount :: int
  semWaitQueue :: "nat list"

record condVarHandle =
  pMutex :: "nat option"
  condVarWaitQueue :: "nat list"

record msgQueueHandle =
  buffer :: "8 word list"
  queueLength :: nat
  itemSize :: nat
  itemCount :: nat
  readIndex :: nat
  writeIndex :: nat
  producerWaitQueue :: "nat list"
  consumerWaitQueue :: "nat list"

datatype timerModeType = TIMER_MODE_SINGLE_SHOT | TIMER_MODE_PERIODIC

text \<open>A timeout handler is a function pointer; it is named by a number.\<close>

record timerNode =
  intervalTicks :: "32 word"
  ticksToExpire :: "32 word"
  mode :: timerModeType
  isRunning :: bool
  timeoutHandler :: nat

text \<open>
  Return codes. Only their names are used by the C files; the values live in
  \<^verbatim>\<open>retCodes.h\<close>. The message queue returns \<^verbatim>\<open>SUCCESS\<close> and the negated
  \<^verbatim>\<open>E...\<close> codes, written \<open>NEG_E...\<close> here.
\<close>

datatype retCode =
  RET_SUCCESS | RET_BUSY | RET_TIMEOUT | RET_NOTOWNER | RET_NOTLOCKED | RET_NOSEM

datatype msgRetCode = SUCCESS | NEG_EINVAL | NEG_ENOSPACE | NEG_ENODATA | NEG_ETIMEOUT

subsection \<open>The kernel state\<close>

text \<open>
  \<open>taskPool_currentTask\<close> is \<^verbatim>\<open>taskPool.currentTask\<close>; \<open>currentTask\<close> and \<open>nextTask\<close>
  are the two globals the context-switch handler reads (outgoing and incoming task),
  null until the scheduler first writes them. \<open>pendSV\<close> is the pending bit of the
  deferred context-switch exception. The model describes the kernel once the scheduler
  runs, so \<^verbatim>\<open>taskPool.currentTask\<close> always points to a task.
\<close>

record kernel =
  tasks :: "nat \<Rightarrow> taskHandle"
  readyQueue :: "nat list"
  blockedQueue :: "nat list"
  taskPool_currentTask :: nat
  currentTask :: "nat option"
  nextTask :: "nat option"
  pendSV :: bool
  mutexes :: "nat \<Rightarrow> mutexHandle"
  semaphores :: "nat \<Rightarrow> semaphoreHandle"
  condVars :: "nat \<Rightarrow> condVarHandle"
  msgQueues :: "nat \<Rightarrow> msgQueueHandle"
  timers :: "nat \<Rightarrow> timerNode"
  timerList :: "nat list"
  timeoutHandlerQueue :: "nat list"

text \<open>The two tasks the kernel defines itself (\<^verbatim>\<open>TASK_DEFINE\<close> in timer.c and scheduler.c).\<close>

definition timerTask :: nat where
  "timerTask = 0"

definition idleTask :: nat where
  "idleTask = 1"

text \<open>
  A task-level call that reaches a suspension point (a yield that switches tasks, or a
  block) does not run to its end in one piece: the rest of its body runs when the task is
  scheduled again, from whatever state the kernel is in by then. Such a call is modelled
  in segments. A segment either returns the call's result, or stops at a suspension
  point with the kernel state left behind and the place where the body continues.
\<close>

datatype resumePoint =
  AfterMutexUnlockYield | AfterMutexLockBlock | AfterCondVarBlock
  | AfterMsgQueueSpaceBlock | AfterMsgQueueDataBlock

datatype 'r outcome = Returned 'r kernel | Suspended resumePoint kernel | Undefined

section \<open>Task queue\<close>

text \<open>
  Modelled from the spec: taskQueue.c is not among the sources. "Ordered by ascending
  priority value (best-priority first). Equal-priority tasks are FIFO by insertion
  order. Operations: add, peek, pop-front, empty-test, remove-specific-node."
\<close>

definition taskQueueEmpty :: "nat list \<Rightarrow> bool" where
  "taskQueueEmpty q = (q = [])"

text \<open>Modelled from the spec: "peek returns head"; null on an empty queue.\<close>

definition taskQueuePeek :: "nat list \<Rightarrow> nat option" where
  "taskQueuePeek q = (case q of [] \<Rightarrow> None | t # _ \<Rightarrow> Some t)"

text \<open>
  Modelled from the spec: "pop removes head". The callers test the result against null,
  which is what an empty queue gives. The result is the popped task and the queue left.
\<close>

definition taskQueueGet :: "nat list \<Rightarrow> nat option \<times> nat list" where
  "taskQueueGet q = (case q of [] \<Rightarrow> (None, []) | t # ts \<Rightarrow> (Some t, ts))"

text \<open>
  Modelled from the spec: "an added task is placed after all tasks of strictly better
  (numerically lower) priority and after all equal-priority tasks already present". The
  walk starts at the head and passes every task whose priority value is not greater
  than the new task's; priorities are read from the task control blocks at the time of
  the insertion.
\<close>

fun taskQueueInsert :: "(nat \<Rightarrow> taskHandle) \<Rightarrow> nat \<Rightarrow> nat list \<Rightarrow> nat list" where
  "taskQueueInsert ts t [] = [t]"
| "taskQueueInsert ts t (x # xs) =
     (if priority (ts x) \<le> priority (ts t) then x # taskQueueInsert ts t xs else t # x # xs)"

text \<open>Modelled from the spec: the "add" operation of the task queue, the insertion above.\<close>

definition taskQueueAdd :: "(nat \<Rightarrow> taskHandle) \<Rightarrow> nat list \<Rightarrow> nat \<Rightarrow> nat list" where
  "taskQueueAdd ts q t = taskQueueInsert ts t q"

text \<open>Modelled from the spec: "remove(node) unlinks a specific node".\<close>

definition taskQueueRemove :: "nat list \<Rightarrow> nat \<Rightarrow> nat list" where
  "taskQueueRemove q t = remove1 t q"

section \<open>Scheduler (scheduler.c)\<close>

definition triggerPendSV :: "kernel \<Rightarrow> kernel" where
  "triggerPendSV k = k\<lparr>pendSV := True\<rparr>"

text \<open>
  \<^verbatim>\<open>scheduleNextTask\<close>. The peek and the pop are made on a queue the function has just
  found non-empty; the null results of \<open>taskQueuePeek\<close> and \<open>taskQueueGet\<close> cannot
  arise there and leave the state as it is.
\<close>

definition scheduleNextTask :: "kernel \<Rightarrow> kernel" where
  "scheduleNextTask k =
     (if \<not> taskQueueEmpty (readyQueue k) then
        (let cur = taskPool_currentTask k;
             go = (\<lambda>k1.
               (case taskQueueGet (readyQueue k1) of
                  (None, _) \<Rightarrow> k1
                | (Some n, rq) \<Rightarrow>
                    triggerPendSV
                      (k1\<lparr>currentTask := Some (taskPool_currentTask k1),
                          nextTask := Some n,
                          readyQueue := rq,
                          taskPool_currentTask := n,
                          tasks := (tasks k1)(n := (tasks k1 n)\<lparr>status := TASK_STATUS_RUNNING\<rparr>)\<rparr>)))
         in if status (tasks k cur) = TASK_STATUS_RUNNING then
              (case taskQueuePeek (readyQueue k) of
                 None \<Rightarrow> k
               | Some nextReadyTask \<Rightarrow>
                   if priority (tasks k nextReadyTask) \<le> priority (tasks k cur) then
                     (let ts1 = (tasks k)(cur := (tasks k cur)\<lparr>status := TASK_STATUS_READY\<rparr>)
                      in go (k\<lparr>tasks := ts1, readyQueue := taskQueueAdd ts1 (readyQueue k) cur\<rparr>))
                   else k)
            else go k)
      else k)"

text \<open>
  \<^verbatim>\<open>SVC_Handler\<close> and \<^verbatim>\<open>taskYield\<close>. \<^verbatim>\<open>TASKS_RUN_PRIV\<close> is a tunable of
  \<^verbatim>\<open>osConfig.h\<close> and is a parameter here; an unprivileged task yields through the
  supervisor call, whose handler makes the same scheduling decision.
\<close>

definition SVC_Handler :: "kernel \<Rightarrow> kernel" where
  "SVC_Handler k = scheduleNextTask k"

definition taskYield :: "bool \<Rightarrow> kernel \<Rightarrow> kernel" where
  "taskYield tasksRunPriv k = (if tasksRunPriv then scheduleNextTask k else SVC_Handler k)"

section \<open>Task operations\<close>

text \<open>
  Modelled from the spec: task.c is not among the sources. \<^verbatim>\<open>taskSetReady\<close>: "if t is on
  the blocked-timeout list, remove it; clear remainingSleepTicks; if t is on any
  primitive wait queue, remove it; set status=READY, wakeupReason=wakeReason; insert in
  ready queue." The primitive wait queues are the wait queues of every mutex, semaphore,
  condition variable and message queue of the kernel state.
\<close>

definition detachFromWaitQueues :: "kernel \<Rightarrow> nat \<Rightarrow> kernel" where
  "detachFromWaitQueues k t =
     k\<lparr>mutexes := (\<lambda>m. (mutexes k m)
            \<lparr>mutexWaitQueue := taskQueueRemove (mutexWaitQueue (mutexes k m)) t\<rparr>),
       semaphores := (\<lambda>s. (semaphores k s)
            \<lparr>semWaitQueue := taskQueueRemove (semWaitQueue (semaphores k s)) t\<rparr>),
       condVars := (\<lambda>c. (condVars k c)
            \<lparr>condVarWaitQueue := taskQueueRemove (condVarWaitQueue (condVars k c)) t\<rparr>),
       msgQueues := (\<lambda>q. (msgQueues k q)
            \<lparr>producerWaitQueue := taskQueueRemove (producerWaitQueue (msgQueues k q)) t,
             consumerWaitQueue := taskQueueRemove (consumerWaitQueue (msgQueues k q)) t\<rparr>)\<rparr>"

text \<open>Modelled from the spec: \<^verbatim>\<open>taskSetReady\<close> of task.c, clause by clause in the order of the
  sentence quoted above.\<close>

definition taskSetReady :: "kernel \<Rightarrow> nat \<Rightarrow> wakeupReasonType \<Rightarrow> kernel" where
  "taskSetReady k t wakeReason =
     (let k1 = (if t \<in> set (blockedQueue k)
                then k\<lparr>blockedQueue := taskQueueRemove (blockedQueue k) t\<rparr> else k);
          k2 = k1\<lparr>tasks := (tasks k1)(t := (tasks k1 t)\<lparr>remainingSleepTicks := 0\<rparr>)\<rparr>;
          k3 = detachFromWaitQueues k2 t;
          ts4 = (tasks k3)(t := (tasks k3 t)\<lparr>status := TASK_STATUS_READY, wakeupReason := wakeReason\<rparr>)
      in k3\<lparr>tasks := ts4, readyQueue := taskQueueAdd ts4 (readyQueue k3) t\<rparr>)"

text \<open>
  Modelled from the spec: \<^verbatim>\<open>taskBlock\<close>: "set status=BLOCKED, blockedReason=reason,
  remainingSleepTicks=ticks (ticks==MAX means "no timeout"), insert in blocked-timeout
  list, yield", together with "a task blocked with "no timeout" has remainingSleepTicks
  == 0 at block time": the maximal wait is stored as 0. The result is the kernel state
  the yield leaves behind; the caller continues when it is scheduled again.
\<close>

definition taskBlock :: "bool \<Rightarrow> kernel \<Rightarrow> nat \<Rightarrow> blockedReasonType \<Rightarrow> 32 word \<Rightarrow> kernel" where
  "taskBlock tasksRunPriv k t reason ticks =
     (let ts1 = (tasks k)(t := (tasks k t)
                  \<lparr>status := TASK_STATUS_BLOCKED, blockedReason := reason,
                   remainingSleepTicks := (if ticks = TASK_MAX_WAIT then 0 else ticks)\<rparr>)
      in taskYield tasksRunPriv
           (k\<lparr>tasks := ts1, blockedQueue := taskQueueAdd ts1 (blockedQueue k) t\<rparr>))"

section \<open>The scheduling decision\<close>

text \<open>
  The decision algorithm in the specification's words (steps 1 to 5): with an empty
  ready queue nothing changes; with the current task RUNNING and a head of numerically
  greater priority nothing changes; otherwise a RUNNING current task becomes READY and
  is inserted into the ready queue, the head found at the start leaves the queue,
  becomes RUNNING and becomes the current task, and the deferred context-switch
  exception is requested. The outgoing and the incoming task are recorded for the
  context-switch handler.
\<close>

definition scheduleNextTask_spec :: "kernel \<Rightarrow> kernel" where
  "scheduleNextTask_spec k =
     (case readyQueue k of
        [] \<Rightarrow> k
      | head # rest \<Rightarrow>
          (let cur = taskPool_currentTask k;
               running = (status (tasks k cur) = TASK_STATUS_RUNNING)
           in if running \<and> priority (tasks k head) > priority (tasks k cur) then k
              else
                (let ts3 = (if running
                            then (tasks k)(cur := (tasks k cur)\<lparr>status := TASK_STATUS_READY\<rparr>)
                            else tasks k);
                     rq3 = (if running then taskQueueAdd ts3 rest cur else rest)
                 in k\<lparr>tasks := ts3(head := (ts3 head)\<lparr>status := TASK_STATUS_RUNNING\<rparr>),
                      readyQueue := rq3,
                      taskPool_currentTask := head,
                      currentTask := Some cur,
                      nextTask := Some head,
                      pendSV := True\<rparr>)))"

text \<open>A small system used to run the definitions: the timer task, the idle task and two
  application tasks 2 (priority 10) and 3 (priority 20).\<close>

definition mkTask :: "8 word \<Rightarrow> taskStatusType \<Rightarrow> taskHandle" where
  "mkTask p s = \<lparr>stackPointer = 0, remainingSleepTicks = 0, status = s,
     blockedReason = BLOCK_REASON_NONE, wakeupReason = WAKEUP_REASON_NONE, priority = p\<rparr>"

definition demoTasks :: "nat \<Rightarrow> taskHandle" where
  "demoTasks = (\<lambda>_. mkTask 255 TASK_STATUS_SUSPENDED)
     (0 := (mkTask 0 TASK_STATUS_BLOCKED)\<lparr>blockedReason := WAIT_FOR_TIMER_TIMEOUT\<rparr>,
      1 := mkTask 255 TASK_STATUS_READY,
      2 := mkTask 10 TASK_STATUS_RUNNING,
      3 := mkTask 20 TASK_STATUS_READY)"

definition demoKernel :: kernel where
  "demoKernel =
     \<lparr>tasks = demoTasks, readyQueue = [3, 1], blockedQueue = [0], taskPool_currentTask = 2,
      currentTask = None, nextTask = None, pendSV = False,
      mutexes = (\<lambda>_. \<lparr>locked = False, ownerTask = None, ownerDefaultPriority = - 1,
                      mutexWaitQueue = []\<rparr>),
      semaphores = (\<lambda>_. \<lparr>count = 0, maxCount = 1, semWaitQueue = []\<rparr>),
      condVars = (\<lambda>_. \<lparr>pMutex = Some 0, condVarWaitQueue = []\<rparr>),
      msgQueues = (\<lambda>_. \<lparr>buffer = [], queueLength = 0, itemSize = 0, itemCount = 0,
                        readIndex = 0, writeIndex = 0, producerWaitQueue = [],
                        consumerWaitQueue = []\<rparr>),
      timers = (\<lambda>_. \<lparr>intervalTicks = 0, ticksToExpire = 0, mode = TIMER_MODE_SINGLE_SHOT,
                     isRunning = False, timeoutHandler = 0\<rparr>),
      timerList = [], timeoutHandlerQueue = []\<rparr>"

lemma taskQueueInsert_head:
  "priority (ts x) \<le> priority (ts t) \<Longrightarrow>
     taskQueueAdd ts (x # xs) t = x # taskQueueAdd ts xs t"
  by (simp add: taskQueueAdd_def)

lemma scheduleNextTask_unfold:
  "scheduleNextTask k = scheduleNextTask_spec k"
proof (cases "readyQueue k")
  case Nil
  then show ?thesis
    by (simp add: scheduleNextTask_def scheduleNextTask_spec_def taskQueueEmpty_def)
next
  case (Cons h rest)
  let ?cur = "taskPool_currentTask k"
  show ?thesis
  proof (cases "status (tasks k ?cur) = TASK_STATUS_RUNNING")
    case False
    with Cons show ?thesis
      by (simp add: scheduleNextTask_def scheduleNextTask_spec_def taskQueueEmpty_def
          taskQueueGet_def triggerPendSV_def Let_def)
  next
    case True
    show ?thesis
    proof (cases "priority (tasks k h) \<le> priority (tasks k ?cur)")
      case False
      with True Cons show ?thesis
        by (simp add: scheduleNextTask_def scheduleNextTask_spec_def taskQueueEmpty_def
            taskQueuePeek_def Let_def not_le)
    next
      case le: True
      let ?ts1 = "(tasks k)(?cur := (tasks k ?cur)\<lparr>status := TASK_STATUS_READY\<rparr>)"
      have "priority (?ts1 h) \<le> priority (?ts1 ?cur)"
        using le by simp
      then have add: "taskQueueAdd ?ts1 (h # rest) ?cur = h # taskQueueAdd ?ts1 rest ?cur"
        by (rule taskQueueInsert_head)
      from le have nless: "\<not> priority (tasks k ?cur) < priority (tasks k h)"
        by (simp add: not_less)
      show ?thesis
        using True Cons le nless add
        by (simp add: scheduleNextTask_def scheduleNextTask_spec_def taskQueueEmpty_def
            taskQueuePeek_def taskQueueGet_def triggerPendSV_def Let_def)
    qed
  qed
qed

text \<open>
  C1. The scheduler decision \<^verbatim>\<open>scheduleNextTask\<close> follows the specification's algorithm:
  it returns with nothing changed when the ready queue is empty, and when the current
  task is RUNNING and the head of the ready queue has a numerically greater priority;
  otherwise a RUNNING current task is re-inserted into the ready queue as READY, the head
  is popped, marked RUNNING and made the current task, and the deferred context switch
  is requested.
\<close>

theorem scheduleNextTask_follows_spec:
  "scheduleNextTask k = scheduleNextTask_spec k"
  by (rule scheduleNextTask_unfold)

theorem scheduleNextTask_follows_spec_witness:
  "scheduleNextTask (demoKernel\<lparr>readyQueue := [3, 2, 1]\<rparr>) =
     scheduleNextTask_spec (demoKernel\<lparr>readyQueue := [3, 2, 1]\<rparr>)
   \<and> readyQueue (scheduleNextTask_spec (demoKernel\<lparr>tasks := demoTasks(3 := mkTask 10 TASK_STATUS_READY)\<rparr>)) = [2, 1]
   \<and> taskPool_currentTask (scheduleNextTask_spec (demoKernel\<lparr>tasks := demoTasks(3 := mkTask 10 TASK_STATUS_READY)\<rparr>)) = 3
   \<and> scheduleNextTask_spec demoKernel = demoKernel"
  using scheduleNextTask_follows_spec [of "demoKernel\<lparr>readyQueue := [3, 2, 1]\<rparr>"]
  by (simp add: scheduleNextTask_spec_def demoKernel_def demoTasks_def mkTask_def
      taskQueueAdd_def Let_def)

section \<open>Mutex (mutex.c)\<close>

text \<open>
  \<^verbatim>\<open>MUTEX_USE_PRIORITY_INHERITANCE\<close> is a tunable of \<^verbatim>\<open>osConfig.h\<close> and is a parameter
  of the two mutex operations. The critical-section macros disable and re-enable
  interrupts; each segment below runs with interrupts disabled or without a tick in
  between, and the macros have no counterpart in the model.

  The priority-inheritance block of \<^verbatim>\<open>mutexLock\<close> (the lines under the first
  \<^verbatim>\<open>#if\<close>): the owner's priority, a \<^verbatim>\<open>uint8_t\<close>, is stored into the integer
  \<^verbatim>\<open>ownerDefaultPriority\<close> as its unsigned value.
\<close>

definition inheritPriority :: "kernel \<Rightarrow> nat \<Rightarrow> nat \<Rightarrow> kernel" where
  "inheritPriority k m cur =
     (case ownerTask (mutexes k m) of
        None \<Rightarrow> k
      | Some owner \<Rightarrow>
          if priority (tasks k cur) < priority (tasks k owner) then
            (let mx = mutexes k m;
                 mx1 = (if ownerDefaultPriority mx = - 1
                        then mx\<lparr>ownerDefaultPriority := uint (priority (tasks k owner))\<rparr>
                        else mx)
             in k\<lparr>mutexes := (mutexes k)(m := mx1),
                  tasks := (tasks k)(owner := (tasks k owner)\<lparr>priority := priority (tasks k cur)\<rparr>)\<rparr>)
          else k)"

text \<open>
  \<^verbatim>\<open>mutexLock\<close> up to its return or, on the waiting path, up to the block. The waiting
  path continues in \<open>mutexLock_resume\<close>, which needs the local \<^verbatim>\<open>currentTask\<close> of the
  suspended call.
\<close>

definition mutexLock :: "bool \<Rightarrow> bool \<Rightarrow> kernel \<Rightarrow> nat \<Rightarrow> 32 word \<Rightarrow> retCode outcome" where
  "mutexLock usePriorityInheritance tasksRunPriv k m waitTicks =
     (let cur = taskPool_currentTask k;
          k1 = (if usePriorityInheritance then inheritPriority k m cur else k)
      in if \<not> locked (mutexes k1 m) then
           Returned RET_SUCCESS
             (k1\<lparr>mutexes := (mutexes k1)(m := (mutexes k1 m)\<lparr>locked := True, ownerTask := Some cur\<rparr>)\<rparr>)
         else if waitTicks = TASK_NO_WAIT \<and> locked (mutexes k1 m) then
           Returned RET_BUSY k1
         else
           Suspended AfterMutexLockBlock
             (taskBlock tasksRunPriv
                (k1\<lparr>mutexes := (mutexes k1)(m := (mutexes k1 m)
                       \<lparr>mutexWaitQueue := taskQueueAdd (tasks k1) (mutexWaitQueue (mutexes k1 m)) cur\<rparr>)\<rparr>)
                cur WAIT_FOR_MUTEX waitTicks))"

definition mutexLock_resume :: "kernel \<Rightarrow> nat \<Rightarrow> nat \<Rightarrow> retCode outcome" where
  "mutexLock_resume k m cur =
     (if wakeupReason (tasks k cur) = MUTEX_LOCKED \<and> ownerTask (mutexes k m) = Some cur
      then Returned RET_SUCCESS k
      else Returned RET_TIMEOUT k)"

text \<open>
  The restoring block of \<^verbatim>\<open>mutexUnlock\<close> (the lines under its \<^verbatim>\<open>#if\<close>), run when the
  caller owns the locked mutex: the integer is assigned to the \<^verbatim>\<open>uint8_t\<close> priority,
  which keeps its low eight bits.
\<close>

definition restorePriority :: "kernel \<Rightarrow> nat \<Rightarrow> kernel" where
  "restorePriority k m =
     (if ownerDefaultPriority (mutexes k m) \<noteq> - 1 then
        (case ownerTask (mutexes k m) of
           None \<Rightarrow> k
         | Some owner \<Rightarrow>
             k\<lparr>tasks := (tasks k)(owner := (tasks k owner)
                    \<lparr>priority := word_of_int (ownerDefaultPriority (mutexes k m))\<rparr>),
               mutexes := (mutexes k)(m := (mutexes k m)\<lparr>ownerDefaultPriority := - 1\<rparr>)\<rparr>)
      else k)"

text \<open>
  The critical section of \<^verbatim>\<open>mutexUnlock\<close>: the return code, the flag
  \<^verbatim>\<open>contextSwitchRequired\<close> and the state at \<^verbatim>\<open>EXIT_CRITICAL_SECTION\<close>.
\<close>

definition mutexUnlock_critical :: "bool \<Rightarrow> kernel \<Rightarrow> nat \<Rightarrow> retCode \<times> bool \<times> kernel" where
  "mutexUnlock_critical usePriorityInheritance k m =
     (let cur = taskPool_currentTask k in
      if ownerTask (mutexes k m) = Some cur then
        if locked (mutexes k m) then
          (let k1 = (if usePriorityInheritance then restorePriority k m else k);
               (nextOwner, wq) = taskQueueGet (mutexWaitQueue (mutexes k1 m));
               k2 = k1\<lparr>mutexes := (mutexes k1)(m := (mutexes k1 m)
                        \<lparr>mutexWaitQueue := wq, ownerTask := nextOwner\<rparr>)\<rparr>
           in case nextOwner of
                Some n \<Rightarrow>
                  (let k3 = taskSetReady k2 n MUTEX_LOCKED
                   in (RET_SUCCESS,
                       priority (tasks k3 n) \<le> priority (tasks k3 (taskPool_currentTask k3)),
                       k3))
              | None \<Rightarrow>
                  (RET_SUCCESS, False,
                   k2\<lparr>mutexes := (mutexes k2)(m := (mutexes k2 m)\<lparr>locked := False\<rparr>)\<rparr>))
        else (RET_NOTLOCKED, False, k)
      else (RET_NOTOWNER, False, k))"

text \<open>
  \<^verbatim>\<open>mutexUnlock\<close>: the critical section, then the yield when a context switch is
  required. The return code reaches the caller when it runs again.
\<close>

definition mutexUnlock :: "bool \<Rightarrow> bool \<Rightarrow> kernel \<Rightarrow> nat \<Rightarrow> retCode \<times> kernel" where
  "mutexUnlock usePriorityInheritance tasksRunPriv k m =
     (let (retCode, contextSwitchRequired, k1) = mutexUnlock_critical usePriorityInheritance k m
      in (retCode, if contextSwitchRequired then taskYield tasksRunPriv k1 else k1))"


section \<open>What the shared operations leave alone\<close>

lemma set_taskQueueAdd: "set (taskQueueAdd ts q t) = insert t (set q)"
  unfolding taskQueueAdd_def by (induction q) auto

lemma scheduleNextTask_tasks:
  "tasks (scheduleNextTask k) t = (tasks k t)\<lparr>status := status (tasks (scheduleNextTask k) t)\<rparr>"
  by (simp add: scheduleNextTask_unfold scheduleNextTask_spec_def Let_def split: list.splits)

lemma scheduleNextTask_priority:
  "priority (tasks (scheduleNextTask k) t) = priority (tasks k t)"
  by (subst scheduleNextTask_tasks) simp

lemma scheduleNextTask_wakeupReason:
  "wakeupReason (tasks (scheduleNextTask k) t) = wakeupReason (tasks k t)"
  by (subst scheduleNextTask_tasks) simp

lemma scheduleNextTask_objects:
  "mutexes (scheduleNextTask k) = mutexes k"
  "semaphores (scheduleNextTask k) = semaphores k"
  "condVars (scheduleNextTask k) = condVars k"
  "msgQueues (scheduleNextTask k) = msgQueues k"
  "timers (scheduleNextTask k) = timers k"
  "timerList (scheduleNextTask k) = timerList k"
  "timeoutHandlerQueue (scheduleNextTask k) = timeoutHandlerQueue k"
  "blockedQueue (scheduleNextTask k) = blockedQueue k"
  by (simp_all add: scheduleNextTask_unfold scheduleNextTask_spec_def Let_def split: list.splits)

lemma taskYield_priority:
  "priority (tasks (taskYield priv k) t) = priority (tasks k t)"
  by (simp add: taskYield_def SVC_Handler_def scheduleNextTask_priority)

lemma taskYield_wakeupReason:
  "wakeupReason (tasks (taskYield priv k) t) = wakeupReason (tasks k t)"
  by (simp add: taskYield_def SVC_Handler_def scheduleNextTask_wakeupReason)

lemma taskYield_objects:
  "mutexes (taskYield priv k) = mutexes k"
  "semaphores (taskYield priv k) = semaphores k"
  "condVars (taskYield priv k) = condVars k"
  "msgQueues (taskYield priv k) = msgQueues k"
  "timers (taskYield priv k) = timers k"
  "timerList (taskYield priv k) = timerList k"
  "timeoutHandlerQueue (taskYield priv k) = timeoutHandlerQueue k"
  "blockedQueue (taskYield priv k) = blockedQueue k"
  by (simp_all add: taskYield_def SVC_Handler_def scheduleNextTask_objects)

lemma taskBlock_priority:
  "priority (tasks (taskBlock priv k t reason ticks) u) = priority (tasks k u)"
  by (simp add: taskBlock_def Let_def taskYield_priority)

lemma taskBlock_objects:
  "mutexes (taskBlock priv k t reason ticks) = mutexes k"
  "semaphores (taskBlock priv k t reason ticks) = semaphores k"
  "condVars (taskBlock priv k t reason ticks) = condVars k"
  "msgQueues (taskBlock priv k t reason ticks) = msgQueues k"
  by (simp_all add: taskBlock_def Let_def taskYield_objects)

lemma taskSetReady_tasks:
  "tasks (taskSetReady k t wr) u =
     (if u = t
      then (tasks k t)\<lparr>remainingSleepTicks := 0, status := TASK_STATUS_READY, wakeupReason := wr\<rparr>
      else tasks k u)"
  by (simp add: taskSetReady_def detachFromWaitQueues_def Let_def)

lemma taskSetReady_priority:
  "priority (tasks (taskSetReady k t wr) u) = priority (tasks k u)"
  by (simp add: taskSetReady_tasks)

lemma taskSetReady_readyQueue:
  "set (readyQueue (taskSetReady k t wr)) = insert t (set (readyQueue k))"
  by (simp add: taskSetReady_def detachFromWaitQueues_def Let_def set_taskQueueAdd)

lemma taskSetReady_blockedQueue:
  "blockedQueue (taskSetReady k t wr) = remove1 t (blockedQueue k)"
  by (simp add: taskSetReady_def detachFromWaitQueues_def Let_def taskQueueRemove_def
      remove1_idem)

lemma taskSetReady_currentTask:
  "taskPool_currentTask (taskSetReady k t wr) = taskPool_currentTask k"
  by (simp add: taskSetReady_def detachFromWaitQueues_def Let_def)

lemma taskSetReady_mutexes:
  "mutexes (taskSetReady k t wr) m =
     (mutexes k m)\<lparr>mutexWaitQueue := remove1 t (mutexWaitQueue (mutexes k m))\<rparr>"
  by (simp add: taskSetReady_def detachFromWaitQueues_def Let_def taskQueueRemove_def)

lemma taskSetReady_semaphores:
  "semaphores (taskSetReady k t wr) s =
     (semaphores k s)\<lparr>semWaitQueue := remove1 t (semWaitQueue (semaphores k s))\<rparr>"
  by (simp add: taskSetReady_def detachFromWaitQueues_def Let_def taskQueueRemove_def)

lemma taskSetReady_msgQueues:
  "msgQueues (taskSetReady k t wr) q =
     (msgQueues k q)\<lparr>producerWaitQueue := remove1 t (producerWaitQueue (msgQueues k q)),
                     consumerWaitQueue := remove1 t (consumerWaitQueue (msgQueues k q))\<rparr>"
  by (simp add: taskSetReady_def detachFromWaitQueues_def Let_def taskQueueRemove_def)

lemma taskSetReady_timers:
  "timers (taskSetReady k t wr) = timers k"
  "timerList (taskSetReady k t wr) = timerList k"
  "timeoutHandlerQueue (taskSetReady k t wr) = timeoutHandlerQueue k"
  by (simp_all add: taskSetReady_def detachFromWaitQueues_def Let_def)


section \<open>Mutex properties\<close>

lemma restorePriority_mutex:
  "ownerTask (mutexes (restorePriority k m) m) = ownerTask (mutexes k m)"
  "locked (mutexes (restorePriority k m) m) = locked (mutexes k m)"
  "mutexWaitQueue (mutexes (restorePriority k m) m) = mutexWaitQueue (mutexes k m)"
  "taskPool_currentTask (restorePriority k m) = taskPool_currentTask k"
  by (simp_all add: restorePriority_def split: option.splits)

lemma mutexUnlock_critical_owner_locked:
  assumes "ownerTask (mutexes k m) = Some (taskPool_currentTask k)" and "locked (mutexes k m)"
  shows "mutexUnlock_critical pi k m =
    (let k1 = (if pi then restorePriority k m else k) in
     case mutexWaitQueue (mutexes k m) of
       [] \<Rightarrow> (RET_SUCCESS, False,
               k1\<lparr>mutexes := (mutexes k1)(m := (mutexes k1 m)
                   \<lparr>mutexWaitQueue := [], ownerTask := None, locked := False\<rparr>)\<rparr>)
     | n # rest \<Rightarrow>
         (let k3 = taskSetReady
                     (k1\<lparr>mutexes := (mutexes k1)(m := (mutexes k1 m)
                           \<lparr>mutexWaitQueue := rest, ownerTask := Some n\<rparr>)\<rparr>) n MUTEX_LOCKED
          in (RET_SUCCESS, priority (tasks k3 n) \<le> priority (tasks k3 (taskPool_currentTask k)), k3)))"
  using assms
  by (simp add: mutexUnlock_critical_def Let_def taskQueueGet_def restorePriority_mutex
      taskSetReady_currentTask split: list.splits)

text \<open>
  C2. For every mutex whose owner is the calling task and which is locked,
  \<^verbatim>\<open>mutexUnlock\<close> pops the head of the wait queue. With a waiter \<open>n\<close> at the head, \<open>n\<close>
  becomes the owner, the mutex stays locked and \<open>n\<close> is set ready with wakeup reason
  MUTEX_LOCKED: the state at the end of the critical section is the one
  \<open>taskSetReady\<close> produces, \<open>n\<close> is READY there and on the ready queue, and ownership,
  lock and wakeup reason are still in place when \<^verbatim>\<open>mutexUnlock\<close> is left, so that the
  suspended \<^verbatim>\<open>mutexLock\<close> of \<open>n\<close>, continued from there, returns RET_SUCCESS without
  contending again. With an empty wait queue the owner becomes none and the mutex
  unlocked. The call returns RET_SUCCESS.
\<close>

theorem mutexUnlock_handover:
  assumes "ownerTask (mutexes k m) = Some (taskPool_currentTask k)" and "locked (mutexes k m)"
  shows "fst (mutexUnlock pi priv k m) = RET_SUCCESS \<and>
    (let k1 = (if pi then restorePriority k m else k);
         kc = snd (snd (mutexUnlock_critical pi k m));
         k' = snd (mutexUnlock pi priv k m)
     in case mutexWaitQueue (mutexes k m) of
          [] \<Rightarrow> k' = k1\<lparr>mutexes := (mutexes k1)(m := (mutexes k1 m)
                   \<lparr>mutexWaitQueue := [], ownerTask := None, locked := False\<rparr>)\<rparr>
                 \<and> ownerTask (mutexes k' m) = None \<and> \<not> locked (mutexes k' m)
        | n # rest \<Rightarrow>
            kc = taskSetReady (k1\<lparr>mutexes := (mutexes k1)(m := (mutexes k1 m)
                                  \<lparr>mutexWaitQueue := rest, ownerTask := Some n\<rparr>)\<rparr>) n MUTEX_LOCKED
            \<and> status (tasks kc n) = TASK_STATUS_READY
            \<and> wakeupReason (tasks kc n) = MUTEX_LOCKED
            \<and> n \<in> set (readyQueue kc)
            \<and> ownerTask (mutexes kc m) = Some n \<and> locked (mutexes kc m)
            \<and> ownerTask (mutexes k' m) = Some n \<and> locked (mutexes k' m)
            \<and> wakeupReason (tasks k' n) = MUTEX_LOCKED
            \<and> mutexLock_resume k' m n = Returned RET_SUCCESS k')"
proof (cases "mutexWaitQueue (mutexes k m)")
  case Nil
  then show ?thesis
    using assms
    by (simp add: mutexUnlock_def mutexUnlock_critical_owner_locked Let_def)
next
  case (Cons n rest)
  then show ?thesis
    using assms
    by (simp add: mutexUnlock_def mutexUnlock_critical_owner_locked Let_def
        taskSetReady_tasks taskSetReady_readyQueue taskSetReady_mutexes
        taskYield_objects taskYield_wakeupReason restorePriority_mutex
        mutexLock_resume_def)
qed


text \<open>A system in which task 2, the running task, owns the locked mutex 0 and task 3
  waits for it.\<close>

definition demoLocked :: kernel where
  "demoLocked = demoKernel
     \<lparr>tasks := demoTasks(3 := (mkTask 20 TASK_STATUS_BLOCKED)\<lparr>blockedReason := WAIT_FOR_MUTEX\<rparr>),
      readyQueue := [1], blockedQueue := [0, 3],
      mutexes := (mutexes demoKernel)
        (0 := \<lparr>locked = True, ownerTask = Some 2, ownerDefaultPriority = - 1,
               mutexWaitQueue = [3]\<rparr>)\<rparr>"

theorem mutexUnlock_handover_witness:
  "ownerTask (mutexes demoLocked 0) = Some (taskPool_currentTask demoLocked)
   \<and> locked (mutexes demoLocked 0)
   \<and> mutexWaitQueue (mutexes demoLocked 0) = [3]
   \<and> fst (mutexUnlock True True demoLocked 0) = RET_SUCCESS
   \<and> ownerTask (mutexes (snd (mutexUnlock True True demoLocked 0)) 0) = Some 3
   \<and> locked (mutexes (snd (mutexUnlock True True demoLocked 0)) 0)
   \<and> wakeupReason (tasks (snd (mutexUnlock True True demoLocked 0)) 3) = MUTEX_LOCKED"
proof -
  have h1: "ownerTask (mutexes demoLocked 0) = Some (taskPool_currentTask demoLocked)"
    by (simp add: demoLocked_def demoKernel_def)
  have h2: "locked (mutexes demoLocked 0)"
    by (simp add: demoLocked_def demoKernel_def)
  have h3: "mutexWaitQueue (mutexes demoLocked 0) = [3]"
    by (simp add: demoLocked_def demoKernel_def)
  show ?thesis
    using mutexUnlock_handover [OF h1 h2, of True True] h1 h2 h3
    by (simp add: Let_def)
qed

definition outcomeKernel :: "'r outcome \<Rightarrow> kernel option" where
  "outcomeKernel out =
     (case out of Returned _ k \<Rightarrow> Some k | Suspended _ k \<Rightarrow> Some k | Undefined \<Rightarrow> None)"

lemma inheritPriority_boost:
  assumes "ownerTask (mutexes k m) = Some owner"
      and "priority (tasks k cur) < priority (tasks k owner)"
  shows "priority (tasks (inheritPriority k m cur) owner) = priority (tasks k cur)"
    and "ownerDefaultPriority (mutexes (inheritPriority k m cur) m) =
           (if ownerDefaultPriority (mutexes k m) = - 1 then uint (priority (tasks k owner))
            else ownerDefaultPriority (mutexes k m))"
    and "locked (mutexes (inheritPriority k m cur) m) = locked (mutexes k m)"
    and "inheritPriority k m cur =
           k\<lparr>mutexes := (mutexes k)(m := (mutexes k m)\<lparr>ownerDefaultPriority :=
                 (if ownerDefaultPriority (mutexes k m) = - 1 then uint (priority (tasks k owner))
                  else ownerDefaultPriority (mutexes k m))\<rparr>),
             tasks := (tasks k)(owner := (tasks k owner)\<lparr>priority := priority (tasks k cur)\<rparr>)\<rparr>"
  using assms by (simp_all add: inheritPriority_def Let_def)

lemma mutexLock_boost:
  assumes own: "ownerTask (mutexes k m) = Some owner"
      and lt: "priority (tasks k (taskPool_currentTask k)) < priority (tasks k owner)"
  shows "\<exists>k'. outcomeKernel (mutexLock True priv k m waitTicks) = Some k'
           \<and> priority (tasks k' owner) = priority (tasks k (taskPool_currentTask k))
           \<and> ownerDefaultPriority (mutexes k' m) =
               (if ownerDefaultPriority (mutexes k m) = - 1 then uint (priority (tasks k owner))
                else ownerDefaultPriority (mutexes k m))"
  using inheritPriority_boost(1,2,3) [OF own lt]
  by (simp add: mutexLock_def Let_def outcomeKernel_def taskBlock_priority taskBlock_objects)

lemma mutexUnlock_restore_first:
  assumes "ownerTask (mutexes k m) = Some (taskPool_currentTask k)" and "locked (mutexes k m)"
  shows "mutexUnlock True priv k m = mutexUnlock False priv (restorePriority k m) m"
  using assms
  by (simp add: mutexUnlock_def mutexUnlock_critical_def restorePriority_mutex Let_def)

lemma mutexUnlock_priority:
  "priority (tasks (snd (mutexUnlock False priv k m)) t) = priority (tasks k t)"
  by (auto simp add: mutexUnlock_def mutexUnlock_critical_def Let_def taskYield_priority
      taskSetReady_priority split: prod.splits option.splits)

lemma mutexUnlock_sentinel:
  "ownerDefaultPriority (mutexes (snd (mutexUnlock False priv k m)) m) =
     ownerDefaultPriority (mutexes k m)"
  by (auto simp add: mutexUnlock_def mutexUnlock_critical_def Let_def taskYield_objects
      taskSetReady_mutexes split: prod.splits option.splits)

text \<open>
  C3. Priority inheritance (with \<^verbatim>\<open>MUTEX_USE_PRIORITY_INHERITANCE\<close> enabled). For every
  \<^verbatim>\<open>mutexLock\<close> call where the mutex has an owner and the caller's priority is
  numerically smaller than the owner's, the owner's priority is set to the caller's, and
  the owner's previous priority is recorded in \<^verbatim>\<open>ownerDefaultPriority\<close> only if the
  field held the sentinel -1. On \<^verbatim>\<open>mutexUnlock\<close> by the owner of a locked mutex whose
  \<^verbatim>\<open>ownerDefaultPriority\<close> is not -1, the owner's priority is restored to
  \<^verbatim>\<open>ownerDefaultPriority\<close> (as a \<^verbatim>\<open>uint8_t\<close>; the recorded values 0..255 come back
  unchanged) and the sentinel is reset to -1, and this happens before the wait-queue
  handover: the call is the handover run on the restored state.
\<close>

theorem priority_inheritance:
  "(ownerTask (mutexes k m) = Some owner
      \<and> priority (tasks k (taskPool_currentTask k)) < priority (tasks k owner) \<longrightarrow>
      (\<exists>k'. outcomeKernel (mutexLock True priv k m waitTicks) = Some k'
           \<and> priority (tasks k' owner) = priority (tasks k (taskPool_currentTask k))
           \<and> ownerDefaultPriority (mutexes k' m) =
               (if ownerDefaultPriority (mutexes k m) = - 1 then uint (priority (tasks k owner))
                else ownerDefaultPriority (mutexes k m))))
   \<and> (ownerTask (mutexes k m) = Some (taskPool_currentTask k) \<and> locked (mutexes k m)
        \<and> ownerDefaultPriority (mutexes k m) \<noteq> - 1 \<longrightarrow>
      (let odp = ownerDefaultPriority (mutexes k m);
           cur = taskPool_currentTask k;
           restored = k\<lparr>tasks := (tasks k)(cur := (tasks k cur)\<lparr>priority := word_of_int odp\<rparr>),
                        mutexes := (mutexes k)(m := (mutexes k m)\<lparr>ownerDefaultPriority := - 1\<rparr>)\<rparr>;
           k' = snd (mutexUnlock True priv k m)
       in mutexUnlock False priv restored m = mutexUnlock True priv k m
          \<and> priority (tasks k' cur) = word_of_int odp
          \<and> (0 \<le> odp \<and> odp < 256 \<longrightarrow> uint (priority (tasks k' cur)) = odp)
          \<and> ownerDefaultPriority (mutexes k' m) = - 1))"
proof (intro conjI impI)
  assume "ownerTask (mutexes k m) = Some owner
      \<and> priority (tasks k (taskPool_currentTask k)) < priority (tasks k owner)"
  then show "\<exists>k'. outcomeKernel (mutexLock True priv k m waitTicks) = Some k'
           \<and> priority (tasks k' owner) = priority (tasks k (taskPool_currentTask k))
           \<and> ownerDefaultPriority (mutexes k' m) =
               (if ownerDefaultPriority (mutexes k m) = - 1 then uint (priority (tasks k owner))
                else ownerDefaultPriority (mutexes k m))"
    using mutexLock_boost by blast
next
  let ?odp = "ownerDefaultPriority (mutexes k m)"
  let ?cur = "taskPool_currentTask k"
  let ?restored = "k\<lparr>tasks := (tasks k)(?cur := (tasks k ?cur)\<lparr>priority := word_of_int ?odp\<rparr>),
                        mutexes := (mutexes k)(m := (mutexes k m)\<lparr>ownerDefaultPriority := - 1\<rparr>)\<rparr>"
  assume a: "ownerTask (mutexes k m) = Some ?cur \<and> locked (mutexes k m) \<and> ?odp \<noteq> - 1"
  then have r: "restorePriority k m = ?restored"
    by (simp add: restorePriority_def)
  have eq: "mutexUnlock True priv k m = mutexUnlock False priv ?restored m"
    using a mutexUnlock_restore_first [of k m priv] r by simp
  have p: "priority (tasks (snd (mutexUnlock True priv k m)) ?cur) = word_of_int ?odp"
    by (simp add: eq mutexUnlock_priority)
  have s: "ownerDefaultPriority (mutexes (snd (mutexUnlock True priv k m)) m) = - 1"
    by (simp add: eq mutexUnlock_sentinel)
  have u: "0 \<le> ?odp \<and> ?odp < 256 \<longrightarrow> uint (word_of_int ?odp :: 8 word) = ?odp"
    by (simp add: uint_word_of_int)
  show "let odp = ?odp; cur = ?cur; restored = k\<lparr>tasks := (tasks k)(cur := (tasks k cur)\<lparr>priority := word_of_int odp\<rparr>),
                        mutexes := (mutexes k)(m := (mutexes k m)\<lparr>ownerDefaultPriority := - 1\<rparr>)\<rparr>;
           k' = snd (mutexUnlock True priv k m)
       in mutexUnlock False priv restored m = mutexUnlock True priv k m
          \<and> priority (tasks k' cur) = word_of_int odp
          \<and> (0 \<le> odp \<and> odp < 256 \<longrightarrow> uint (priority (tasks k' cur)) = odp)
          \<and> ownerDefaultPriority (mutexes k' m) = - 1"
    unfolding Let_def using eq [symmetric] p s u by simp
qed


text \<open>Task 3 (priority 20) owns mutex 0 while task 2 (priority 10) runs; and task 2 owns
  mutex 0 after having been boosted from priority 10 to priority 5.\<close>

definition demoOwned :: kernel where
  "demoOwned = demoKernel
     \<lparr>mutexes := (mutexes demoKernel)
        (0 := \<lparr>locked = True, ownerTask = Some 3, ownerDefaultPriority = - 1,
               mutexWaitQueue = []\<rparr>)\<rparr>"

definition demoBoosted :: kernel where
  "demoBoosted = demoKernel
     \<lparr>tasks := demoTasks(2 := mkTask 5 TASK_STATUS_RUNNING),
      mutexes := (mutexes demoKernel)
        (0 := \<lparr>locked = True, ownerTask = Some 2, ownerDefaultPriority = 10,
               mutexWaitQueue = []\<rparr>)\<rparr>"

lemma demoOwned_facts:
  "ownerTask (mutexes demoOwned 0) = Some 3"
  "locked (mutexes demoOwned 0)"
  "ownerDefaultPriority (mutexes demoOwned 0) = - 1"
  "taskPool_currentTask demoOwned = 2"
  "priority (tasks demoOwned 2) = 10"
  "priority (tasks demoOwned 3) = 20"
  by (simp_all add: demoOwned_def demoKernel_def demoTasks_def mkTask_def)

lemma demoBoosted_facts:
  "ownerTask (mutexes demoBoosted 0) = Some 2"
  "locked (mutexes demoBoosted 0)"
  "ownerDefaultPriority (mutexes demoBoosted 0) = 10"
  "taskPool_currentTask demoBoosted = 2"
  "priority (tasks demoBoosted 2) = 5"
  by (simp_all add: demoBoosted_def demoKernel_def demoTasks_def mkTask_def)

theorem priority_inheritance_witness:
  "ownerTask (mutexes demoOwned 0) = Some 3
   \<and> priority (tasks demoOwned (taskPool_currentTask demoOwned)) < priority (tasks demoOwned 3)
   \<and> priority (tasks (the (outcomeKernel (mutexLock True True demoOwned 0 5))) 3) = 10
   \<and> ownerDefaultPriority (mutexes (the (outcomeKernel (mutexLock True True demoOwned 0 5))) 0) = 20
   \<and> ownerTask (mutexes demoBoosted 0) = Some (taskPool_currentTask demoBoosted)
   \<and> locked (mutexes demoBoosted 0)
   \<and> ownerDefaultPriority (mutexes demoBoosted 0) \<noteq> - 1
   \<and> priority (tasks demoBoosted 2) = 5
   \<and> priority (tasks (snd (mutexUnlock True True demoBoosted 0)) 2) = 10
   \<and> ownerDefaultPriority (mutexes (snd (mutexUnlock True True demoBoosted 0)) 0) = - 1"
proof -
  have l: "ownerTask (mutexes demoOwned 0) = Some 3
      \<and> priority (tasks demoOwned (taskPool_currentTask demoOwned)) < priority (tasks demoOwned 3)"
    by (simp add: demoOwned_facts)
  have u: "ownerTask (mutexes demoBoosted 0) = Some (taskPool_currentTask demoBoosted)
      \<and> locked (mutexes demoBoosted 0) \<and> ownerDefaultPriority (mutexes demoBoosted 0) \<noteq> - 1"
    by (simp add: demoBoosted_facts)
  from l priority_inheritance [of demoOwned 0 3 True 5]
  have "\<exists>k'. outcomeKernel (mutexLock True True demoOwned 0 5) = Some k'
           \<and> priority (tasks k' 3) = 10 \<and> ownerDefaultPriority (mutexes k' 0) = 20"
    by (simp add: demoOwned_facts)
  then have lock: "priority (tasks (the (outcomeKernel (mutexLock True True demoOwned 0 5))) 3) = 10
      \<and> ownerDefaultPriority (mutexes (the (outcomeKernel (mutexLock True True demoOwned 0 5))) 0) = 20"
    by auto
  from u priority_inheritance [of demoBoosted 0 3 True 5]
  have unlock: "priority (tasks (snd (mutexUnlock True True demoBoosted 0)) 2) = 10
      \<and> ownerDefaultPriority (mutexes (snd (mutexUnlock True True demoBoosted 0)) 0) = - 1"
    by (simp add: demoBoosted_facts Let_def)
  show ?thesis
    using l u lock unlock by (simp add: demoBoosted_facts)
qed

text \<open>
  The two error returns of \<^verbatim>\<open>mutexUnlock\<close>. The ownership test comes first: a caller
  that is not the owner gets RET_NOTOWNER whether the mutex is locked or not, and the
  test of \<^verbatim>\<open>locked\<close> is reached only when the owner field is the caller.
\<close>

lemma mutexUnlock_error_codes:
  "(ownerTask (mutexes k m) \<noteq> Some (taskPool_currentTask k) \<longrightarrow>
      mutexUnlock pi priv k m = (RET_NOTOWNER, k))
   \<and> (ownerTask (mutexes k m) = Some (taskPool_currentTask k) \<and> \<not> locked (mutexes k m) \<longrightarrow>
      mutexUnlock pi priv k m = (RET_NOTLOCKED, k))"
  by (auto simp add: mutexUnlock_def mutexUnlock_critical_def Let_def)

text \<open>
  In a state that satisfies the mutex invariant \<open>locked \<longleftrightarrow> ownerTask \<noteq> none\<close> the return
  code RET_NOTLOCKED is out of reach: an unlocked mutex has no owner, so the ownership
  test fails before \<^verbatim>\<open>locked\<close> is looked at, and the call returns RET_NOTOWNER.
\<close>

lemma mutexUnlock_never_notlocked:
  assumes "locked (mutexes k m) = (ownerTask (mutexes k m) \<noteq> None)"
  shows "fst (mutexUnlock pi priv k m) \<noteq> RET_NOTLOCKED"
    and "\<not> locked (mutexes k m) \<Longrightarrow> mutexUnlock pi priv k m = (RET_NOTOWNER, k)"
  using assms
  by (auto simp add: mutexUnlock_def mutexUnlock_critical_def Let_def
      split: prod.splits option.splits)

text \<open>
  C4. \<^verbatim>\<open>mutexUnlock\<close> is documented to return RET_NOTLOCKED for a mutex that was not
  locked. In the state \<open>demoKernel\<close> the invariant \<open>locked \<longleftrightarrow> ownerTask \<noteq> none\<close> holds and
  mutex 0 is unlocked; \<^verbatim>\<open>mutexUnlock\<close>, called on it by the running task 2, returns
  RET_NOTOWNER and not RET_NOTLOCKED, and leaves the state unchanged.
\<close>

theorem mutexUnlock_unlocked_returns_notowner:
  "(locked (mutexes demoKernel 0) = (ownerTask (mutexes demoKernel 0) \<noteq> None))
   \<and> \<not> locked (mutexes demoKernel 0)
   \<and> taskPool_currentTask demoKernel = 2
   \<and> fst (mutexUnlock True True demoKernel 0) = RET_NOTOWNER
   \<and> fst (mutexUnlock True True demoKernel 0) \<noteq> RET_NOTLOCKED
   \<and> snd (mutexUnlock True True demoKernel 0) = demoKernel
   \<and> fst (mutexUnlock False True demoKernel 0) = RET_NOTOWNER"
  by (simp add: mutexUnlock_def mutexUnlock_critical_def Let_def demoKernel_def)

section \<open>Semaphore (semaphore.c)\<close>

text \<open>\<^verbatim>\<open>semaphoreGive\<close>. The local \<^verbatim>\<open>nextTask\<close> of the C function is \<open>waiter\<close> here.\<close>

definition semaphoreGive :: "kernel \<Rightarrow> nat \<Rightarrow> retCode \<times> kernel" where
  "semaphoreGive k s =
     (if count (semaphores k s) \<noteq> maxCount (semaphores k s) then
        (let (waiter, wq) = taskQueueGet (semWaitQueue (semaphores k s));
             k1 = k\<lparr>semaphores := (semaphores k)(s := (semaphores k s)\<lparr>semWaitQueue := wq\<rparr>)\<rparr>
         in case waiter of
              Some t \<Rightarrow> (RET_SUCCESS, taskSetReady k1 t SEMAPHORE_TAKEN)
            | None \<Rightarrow>
                (RET_SUCCESS,
                 k1\<lparr>semaphores := (semaphores k1)(s := (semaphores k1 s)
                       \<lparr>count := count (semaphores k1 s) + 1\<rparr>)\<rparr>))
      else (RET_NOSEM, k))"

text \<open>
  C5. \<^verbatim>\<open>semaphoreGive\<close> on a semaphore with \<open>count = maxCount\<close> returns RET_NOSEM and
  changes nothing. Otherwise it returns RET_SUCCESS and pops the head of the wait queue:
  a waiter found there is set ready with wakeup reason SEMAPHORE_TAKEN and the count is
  left as it was; with no waiter the count is incremented by one and nothing else
  changes.
\<close>

theorem semaphoreGive_behaviour:
  "(count (semaphores k s) = maxCount (semaphores k s) \<longrightarrow> semaphoreGive k s = (RET_NOSEM, k))
   \<and> (count (semaphores k s) \<noteq> maxCount (semaphores k s) \<longrightarrow>
        fst (semaphoreGive k s) = RET_SUCCESS
        \<and> (let k' = snd (semaphoreGive k s) in
           case semWaitQueue (semaphores k s) of
             [] \<Rightarrow> k' = k\<lparr>semaphores := (semaphores k)(s := (semaphores k s)
                            \<lparr>semWaitQueue := [], count := count (semaphores k s) + 1\<rparr>)\<rparr>
           | t # rest \<Rightarrow>
               k' = taskSetReady
                      (k\<lparr>semaphores := (semaphores k)(s := (semaphores k s)\<lparr>semWaitQueue := rest\<rparr>)\<rparr>)
                      t SEMAPHORE_TAKEN
               \<and> status (tasks k' t) = TASK_STATUS_READY
               \<and> wakeupReason (tasks k' t) = SEMAPHORE_TAKEN
               \<and> t \<in> set (readyQueue k')
               \<and> count (semaphores k' s) = count (semaphores k s)
               \<and> maxCount (semaphores k' s) = maxCount (semaphores k s)))"
proof (cases "semWaitQueue (semaphores k s)")
  case Nil
  then show ?thesis
    by (simp add: semaphoreGive_def taskQueueGet_def Let_def)
next
  case (Cons t rest)
  then show ?thesis
    by (simp add: semaphoreGive_def taskQueueGet_def Let_def taskSetReady_tasks
        taskSetReady_readyQueue taskSetReady_semaphores)
qed

text \<open>Semaphore 0 of \<open>demoKernel\<close> has count 0 of 1 and no waiter; below it is also taken
  full, and given a waiter (task 3).\<close>

theorem semaphoreGive_behaviour_witness:
  "count (semaphores demoKernel 0) \<noteq> maxCount (semaphores demoKernel 0)
   \<and> fst (semaphoreGive demoKernel 0) = RET_SUCCESS
   \<and> count (semaphores (snd (semaphoreGive demoKernel 0)) 0) = 1
   \<and> semaphoreGive (snd (semaphoreGive demoKernel 0)) 0 = (RET_NOSEM, snd (semaphoreGive demoKernel 0))
   \<and> wakeupReason (tasks (snd (semaphoreGive
        (demoKernel\<lparr>semaphores := (semaphores demoKernel)
           (0 := \<lparr>count = 0, maxCount = 1, semWaitQueue = [3]\<rparr>)\<rparr>) 0)) 3) = SEMAPHORE_TAKEN
   \<and> count (semaphores (snd (semaphoreGive
        (demoKernel\<lparr>semaphores := (semaphores demoKernel)
           (0 := \<lparr>count = 0, maxCount = 1, semWaitQueue = [3]\<rparr>)\<rparr>) 0)) 0) = 0"
proof -
  let ?k1 = "snd (semaphoreGive demoKernel 0)"
  let ?kw = "demoKernel\<lparr>semaphores := (semaphores demoKernel)
           (0 := \<lparr>count = 0, maxCount = 1, semWaitQueue = [3]\<rparr>)\<rparr>"
  have a: "count (semaphores demoKernel 0) \<noteq> maxCount (semaphores demoKernel 0)"
    "semWaitQueue (semaphores demoKernel 0) = []" "count (semaphores demoKernel 0) = 0"
    "maxCount (semaphores demoKernel 0) = 1"
    by (simp_all add: demoKernel_def)
  have first: "fst (semaphoreGive demoKernel 0) = RET_SUCCESS \<and> count (semaphores ?k1 0) = 1
      \<and> maxCount (semaphores ?k1 0) = 1"
    using semaphoreGive_behaviour [of demoKernel 0] a by (simp add: Let_def)
  then have second: "semaphoreGive ?k1 0 = (RET_NOSEM, ?k1)"
    using semaphoreGive_behaviour [of ?k1 0] by simp
  have third: "wakeupReason (tasks (snd (semaphoreGive ?kw 0)) 3) = SEMAPHORE_TAKEN
      \<and> count (semaphores (snd (semaphoreGive ?kw 0)) 0) = 0"
    by (simp add: semaphoreGive_def taskQueueGet_def taskSetReady_tasks
        taskSetReady_semaphores demoKernel_def Let_def)
  show ?thesis
    using a first second third by simp
qed

section \<open>Tick service: timeouts of blocked tasks (scheduler.c)\<close>

text \<open>
  \<^verbatim>\<open>checkTimeout\<close> walks the blocked queue. The body of its loop, for the node that
  points to task \<open>t\<close>:
\<close>

definition checkTimeoutNode :: "kernel \<Rightarrow> nat \<Rightarrow> kernel" where
  "checkTimeoutNode k t =
     (if remainingSleepTicks (tasks k t) > 0 then
        (let k1 = k\<lparr>tasks := (tasks k)(t := (tasks k t)
                     \<lparr>remainingSleepTicks := remainingSleepTicks (tasks k t) - 1\<rparr>)\<rparr>
         in if remainingSleepTicks (tasks k1 t) = 0 then
              (if blockedReason (tasks k1 t) = SLEEP
               then taskSetReady k1 t SLEEP_TIME_TIMEOUT
               else taskSetReady k1 t WAIT_TIMEOUT)
            else k1)
      else k)"

text \<open>
  The loop reads the next pointer of a node before it runs the body, and the body
  unlinks no node behind the one it is at (\<open>taskSetReady\<close> removes the first node that
  points to the task, which is the current node or one before it). The nodes visited are
  therefore the nodes on the queue when the loop starts, in order.
\<close>

fun checkTimeoutLoop :: "nat list \<Rightarrow> kernel \<Rightarrow> kernel" where
  "checkTimeoutLoop [] k = k"
| "checkTimeoutLoop (t # rest) k = checkTimeoutLoop rest (checkTimeoutNode k t)"

definition checkTimeout :: "kernel \<Rightarrow> kernel" where
  "checkTimeout k = checkTimeoutLoop (blockedQueue k) k"

lemma checkTimeoutNode_other:
  assumes "u \<noteq> t"
  shows "tasks (checkTimeoutNode k t) u = tasks k u"
    and "(u \<in> set (blockedQueue (checkTimeoutNode k t))) = (u \<in> set (blockedQueue k))"
    and "(u \<in> set (readyQueue (checkTimeoutNode k t))) = (u \<in> set (readyQueue k))"
  using assms
  by (auto simp add: checkTimeoutNode_def Let_def taskSetReady_tasks taskSetReady_blockedQueue
      taskSetReady_readyQueue)

lemma checkTimeoutNode_distinct:
  "distinct (blockedQueue k) \<Longrightarrow> distinct (blockedQueue (checkTimeoutNode k t))"
  by (simp add: checkTimeoutNode_def Let_def taskSetReady_blockedQueue)

lemma checkTimeoutNode_ready_mono:
  "u \<in> set (readyQueue k) \<Longrightarrow> u \<in> set (readyQueue (checkTimeoutNode k t))"
  by (simp add: checkTimeoutNode_def Let_def taskSetReady_readyQueue)

lemma checkTimeoutNode_blocked_anti:
  "u \<notin> set (blockedQueue k) \<Longrightarrow> u \<notin> set (blockedQueue (checkTimeoutNode k t))"
  by (auto simp add: checkTimeoutNode_def Let_def taskSetReady_blockedQueue
      dest: notin_set_remove1)

lemma checkTimeoutLoop_other:
  "u \<notin> set ns \<Longrightarrow>
     tasks (checkTimeoutLoop ns k) u = tasks k u
     \<and> (u \<in> set (blockedQueue (checkTimeoutLoop ns k))) = (u \<in> set (blockedQueue k))
     \<and> (u \<in> set (readyQueue (checkTimeoutLoop ns k))) = (u \<in> set (readyQueue k))"
proof (induction ns arbitrary: k)
  case Nil
  then show ?case by simp
next
  case (Cons n ns)
  then have "u \<noteq> n" and "u \<notin> set ns" by auto
  with Cons.IH [of "checkTimeoutNode k n"] show ?case
    by (simp add: checkTimeoutNode_other)
qed

text \<open>What the loop body does to the task of its own node.\<close>

definition tickedTask :: "taskHandle \<Rightarrow> taskHandle" where
  "tickedTask tcb =
     (if remainingSleepTicks tcb = 0 then tcb
      else if remainingSleepTicks tcb = 1 then
        tcb\<lparr>remainingSleepTicks := 0, status := TASK_STATUS_READY,
            wakeupReason := (if blockedReason tcb = SLEEP then SLEEP_TIME_TIMEOUT else WAIT_TIMEOUT)\<rparr>
      else tcb\<lparr>remainingSleepTicks := remainingSleepTicks tcb - 1\<rparr>)"

lemma word_pred_eq_0: "(r :: 32 word) - 1 = 0 \<longleftrightarrow> r = 1"
  by simp

lemma checkTimeoutNode_self:
  "tasks (checkTimeoutNode k t) t = tickedTask (tasks k t)"
  "remainingSleepTicks (tasks k t) = 1 \<Longrightarrow> t \<in> set (readyQueue (checkTimeoutNode k t))"
  "remainingSleepTicks (tasks k t) = 1 \<Longrightarrow> distinct (blockedQueue k) \<Longrightarrow>
     t \<notin> set (blockedQueue (checkTimeoutNode k t))"
  "remainingSleepTicks (tasks k t) \<noteq> 1 \<Longrightarrow>
     blockedQueue (checkTimeoutNode k t) = blockedQueue k
     \<and> readyQueue (checkTimeoutNode k t) = readyQueue k"
  by (auto simp add: checkTimeoutNode_def tickedTask_def Let_def taskSetReady_tasks
      taskSetReady_readyQueue taskSetReady_blockedQueue word_gt_0)

lemma checkTimeoutLoop_member:
  assumes "t \<in> set ns" and "distinct ns" and "distinct (blockedQueue k)"
  shows "tasks (checkTimeoutLoop ns k) t = tickedTask (tasks k t)
     \<and> (if remainingSleepTicks (tasks k t) = 1
         then t \<in> set (readyQueue (checkTimeoutLoop ns k))
              \<and> t \<notin> set (blockedQueue (checkTimeoutLoop ns k))
         else (t \<in> set (blockedQueue (checkTimeoutLoop ns k))) = (t \<in> set (blockedQueue k))
              \<and> (t \<in> set (readyQueue (checkTimeoutLoop ns k))) = (t \<in> set (readyQueue k)))"
  using assms
proof (induction ns arbitrary: k)
  case Nil
  then show ?case by simp
next
  case (Cons n ns)
  let ?k1 = "checkTimeoutNode k n"
  have d1: "distinct (blockedQueue ?k1)"
    using Cons.prems(3) by (rule checkTimeoutNode_distinct)
  show ?case
  proof (cases "n = t")
    case True
    then have notin: "t \<notin> set ns"
      using Cons.prems(2) by simp
    note rest = checkTimeoutLoop_other [OF notin, of ?k1]
    show ?thesis
    proof (cases "remainingSleepTicks (tasks k t) = 1")
      case one: True
      then show ?thesis
        using True rest checkTimeoutNode_self(1,2,3) [of k t] Cons.prems(3) by simp
    next
      case False
      then show ?thesis
        using True rest checkTimeoutNode_self(1,4) [of k t] by simp
    qed
  next
    case False
    then have mem: "t \<in> set ns" and dist: "distinct ns"
      using Cons.prems by auto
    have o: "tasks ?k1 t = tasks k t"
      "(t \<in> set (blockedQueue ?k1)) = (t \<in> set (blockedQueue k))"
      "(t \<in> set (readyQueue ?k1)) = (t \<in> set (readyQueue k))"
      using False checkTimeoutNode_other [of t n k] by simp_all
    from Cons.IH [OF mem dist d1] o show ?thesis
      by simp
  qed
qed

text \<open>
  What \<^verbatim>\<open>checkTimeout\<close> does to a task \<open>t\<close> on a blocked-timeout list on which no task
  stands twice: a counter at 0 leaves the task as it is, a counter at 1 makes the task
  ready with the wakeup reason its block reason selects, a larger counter is
  decremented.
\<close>

lemma checkTimeout_effect:
  assumes "distinct (blockedQueue k)" and "t \<in> set (blockedQueue k)"
  shows "(let r = remainingSleepTicks (tasks k t); tcb = tasks k t; k' = checkTimeout k in
     (r = 0 \<longrightarrow> tasks k' t = tcb \<and> t \<in> set (blockedQueue k')
                \<and> (t \<in> set (readyQueue k')) = (t \<in> set (readyQueue k)))
     \<and> (r = 1 \<longrightarrow>
          tasks k' t = tcb\<lparr>remainingSleepTicks := 0, status := TASK_STATUS_READY,
             wakeupReason := (if blockedReason tcb = SLEEP then SLEEP_TIME_TIMEOUT else WAIT_TIMEOUT)\<rparr>
          \<and> t \<in> set (readyQueue k') \<and> t \<notin> set (blockedQueue k'))
     \<and> (1 < r \<longrightarrow> tasks k' t = tcb\<lparr>remainingSleepTicks := r - 1\<rparr>
                \<and> t \<in> set (blockedQueue k')
                \<and> (t \<in> set (readyQueue k')) = (t \<in> set (readyQueue k))))"
proof -
  have gt: "1 < remainingSleepTicks (tasks k t) \<Longrightarrow>
      remainingSleepTicks (tasks k t) \<noteq> 0 \<and> remainingSleepTicks (tasks k t) \<noteq> 1"
    by auto
  show ?thesis
    using checkTimeoutLoop_member [OF assms(2) assms(1) assms(1)] assms(2) gt
    by (auto simp add: checkTimeout_def Let_def tickedTask_def)
qed


text \<open>Tasks 3 and 4 wait with one and five ticks left, the timer task waits with no
  timeout.\<close>

definition demoSleepers :: kernel where
  "demoSleepers = demoKernel
     \<lparr>tasks := demoTasks
        (3 := (mkTask 20 TASK_STATUS_BLOCKED)\<lparr>blockedReason := WAIT_FOR_SEMAPHORE, remainingSleepTicks := 1\<rparr>,
         4 := (mkTask 30 TASK_STATUS_BLOCKED)\<lparr>blockedReason := SLEEP, remainingSleepTicks := 5\<rparr>),
      readyQueue := [1], blockedQueue := [0, 3, 4]\<rparr>"

section \<open>Software timers (timer.c)\<close>

text \<open>
  The timer list is an intrusive singly linked list: the link is a field of the timer
  node, so a node stands on the list at most once. The list is modelled by the list of
  its nodes, head first. \<^verbatim>\<open>timeoutHandlerQueuePush\<close> appends a freshly allocated node;
  the model covers the runs in which the allocation succeeds.
\<close>

definition timeoutHandlerQueuePush :: "nat list \<Rightarrow> nat \<Rightarrow> nat list" where
  "timeoutHandlerQueuePush q h = q @ [h]"

definition timerListNodeAdd :: "nat list \<Rightarrow> nat \<Rightarrow> nat list" where
  "timerListNodeAdd l n = n # l"

text \<open>
  \<^verbatim>\<open>timerListNodeDelete\<close> unlinks the head if it is the node, and otherwise walks to the
  node's predecessor; a node that is not on the list makes the walk run off its end (a
  null dereference), which is \<open>None\<close>.
\<close>

fun timerListNodeDelete :: "nat list \<Rightarrow> nat \<Rightarrow> nat list option" where
  "timerListNodeDelete [] n = None"
| "timerListNodeDelete (x # xs) n =
     (if x = n then Some xs else map_option ((#) x) (timerListNodeDelete xs n))"

definition timerStart :: "kernel \<Rightarrow> nat \<Rightarrow> 32 word \<Rightarrow> kernel" where
  "timerStart k n ticks =
     (if isRunning (timers k n) then k
      else k\<lparr>timers := (timers k)(n := (timers k n)
                \<lparr>isRunning := True, ticksToExpire := ticks, intervalTicks := ticks\<rparr>),
             timerList := timerListNodeAdd (timerList k) n\<rparr>)"

definition timerStop :: "kernel \<Rightarrow> nat \<Rightarrow> kernel option" where
  "timerStop k n =
     (if isRunning (timers k n) then
        (case timerListNodeDelete (timerList k) n of
           None \<Rightarrow> None
         | Some l \<Rightarrow> Some (k\<lparr>timers := (timers k)(n := (timers k n)\<lparr>isRunning := False\<rparr>),
                            timerList := l\<rparr>))
      else Some k)"

text \<open>The body of the loop of \<^verbatim>\<open>processTimers\<close>, for the node \<open>n\<close>.\<close>

definition processTimersNode :: "kernel \<Rightarrow> nat \<Rightarrow> kernel option" where
  "processTimersNode k n =
     (let k1 = (if ticksToExpire (timers k n) > 0
                then k\<lparr>timers := (timers k)(n := (timers k n)
                         \<lparr>ticksToExpire := ticksToExpire (timers k n) - 1\<rparr>)\<rparr>
                else k)
      in if ticksToExpire (timers k1 n) = 0 then
           (let k2 = k1\<lparr>timeoutHandlerQueue :=
                         timeoutHandlerQueuePush (timeoutHandlerQueue k1) (timeoutHandler (timers k1 n))\<rparr>;
                k3 = (if status (tasks k2 timerTask) = TASK_STATUS_BLOCKED
                      then taskSetReady k2 timerTask TIMER_TIMEOUT else k2);
                k4 = k3\<lparr>timers := (timers k3)(n := (timers k3 n)
                         \<lparr>ticksToExpire := intervalTicks (timers k3 n)\<rparr>)\<rparr>
            in if mode (timers k4 n) = TIMER_MODE_SINGLE_SHOT then timerStop k4 n else Some k4)
         else Some k1)"

text \<open>
  The loop saves the next pointer before it runs the body, and the body unlinks no node
  but its own: the nodes visited are those on the list when the loop starts.
\<close>

fun processTimersLoop :: "nat list \<Rightarrow> kernel \<Rightarrow> kernel option" where
  "processTimersLoop [] k = Some k"
| "processTimersLoop (n # rest) k =
     (case processTimersNode k n of None \<Rightarrow> None | Some k1 \<Rightarrow> processTimersLoop rest k1)"

definition processTimers :: "kernel \<Rightarrow> kernel option" where
  "processTimers k = (if timerList k \<noteq> [] then processTimersLoop (timerList k) k else Some k)"

text \<open>
  The tick handler \<^verbatim>\<open>SYSTICK_HANDLER\<close>: timers, timeouts of blocked tasks, scheduling
  decision.
\<close>

definition SYSTICK_HANDLER :: "kernel \<Rightarrow> kernel option" where
  "SYSTICK_HANDLER k =
     (case processTimers k of
        None \<Rightarrow> None
      | Some k1 \<Rightarrow>
          Some (scheduleNextTask
                  (if \<not> taskQueueEmpty (blockedQueue k1) then checkTimeout k1 else k1)))"

lemma timerListNodeDelete_member:
  "n \<in> set l \<Longrightarrow> timerListNodeDelete l n = Some (remove1 n l)"
  by (induction l) auto

lemma taskSetReady_tasks_fun:
  "tasks (taskSetReady k t wr) =
     (tasks k)(t := (tasks k t)\<lparr>remainingSleepTicks := 0, status := TASK_STATUS_READY,
                                wakeupReason := wr\<rparr>)"
  by (rule ext) (simp add: taskSetReady_tasks)

lemma taskSetReady_readyQueue_fun:
  "readyQueue (taskSetReady k t wr) =
     taskQueueAdd ((tasks k)(t := (tasks k t)\<lparr>remainingSleepTicks := 0,
        status := TASK_STATUS_READY, wakeupReason := wr\<rparr>)) (readyQueue k) t"
  by (simp add: taskSetReady_def detachFromWaitQueues_def Let_def)

text \<open>Whether a timer expires on this tick (its count, decremented if positive, is 0), and
  what the loop body makes of the timer of its node.\<close>

definition timerExpires :: "timerNode \<Rightarrow> bool" where
  "timerExpires tm =
     ((if 0 < ticksToExpire tm then ticksToExpire tm - 1 else ticksToExpire tm) = 0)"

definition tickedTimer :: "timerNode \<Rightarrow> timerNode" where
  "tickedTimer tm =
     (if timerExpires tm then
        (if mode tm = TIMER_MODE_SINGLE_SHOT \<and> isRunning tm
         then tm\<lparr>ticksToExpire := intervalTicks tm, isRunning := False\<rparr>
         else tm\<lparr>ticksToExpire := intervalTicks tm\<rparr>)
      else tm\<lparr>ticksToExpire := ticksToExpire tm - 1\<rparr>)"

definition wokenTimerTask :: "kernel \<Rightarrow> nat \<Rightarrow> taskHandle" where
  "wokenTimerTask k = (tasks k)(timerTask := (tasks k timerTask)
     \<lparr>remainingSleepTicks := 0, status := TASK_STATUS_READY, wakeupReason := TIMER_TIMEOUT\<rparr>)"

lemma processTimersNode_effect:
  assumes "n \<in> set (timerList k)"
  shows "\<exists>k1. processTimersNode k n = Some k1
    \<and> timers k1 = (timers k)(n := tickedTimer (timers k n))
    \<and> timerList k1 =
        (if timerExpires (timers k n) \<and> mode (timers k n) = TIMER_MODE_SINGLE_SHOT
            \<and> isRunning (timers k n)
         then remove1 n (timerList k) else timerList k)
    \<and> timeoutHandlerQueue k1 =
        timeoutHandlerQueue k @ (if timerExpires (timers k n) then [timeoutHandler (timers k n)] else [])
    \<and> tasks k1 =
        (if timerExpires (timers k n) \<and> status (tasks k timerTask) = TASK_STATUS_BLOCKED
         then wokenTimerTask k else tasks k)
    \<and> readyQueue k1 =
        (if timerExpires (timers k n) \<and> status (tasks k timerTask) = TASK_STATUS_BLOCKED
         then taskQueueAdd (wokenTimerTask k) (readyQueue k) timerTask else readyQueue k)"
proof (cases "timerExpires (timers k n)")
  case False
  then have pos: "0 < ticksToExpire (timers k n)" and nz: "ticksToExpire (timers k n) - 1 \<noteq> 0"
    by (auto simp add: timerExpires_def word_gt_0 split: if_splits)
  show ?thesis
    using False pos nz by (simp add: processTimersNode_def tickedTimer_def Let_def)
next
  case True
  then have z: "(0 < ticksToExpire (timers k n) \<longrightarrow> ticksToExpire (timers k n) - 1 = 0)
      \<and> (\<not> 0 < ticksToExpire (timers k n) \<longrightarrow> ticksToExpire (timers k n) = 0)"
    by (auto simp add: timerExpires_def split: if_splits)
  show ?thesis
    using True z assms
    by (auto simp add: processTimersNode_def tickedTimer_def Let_def timerStop_def
        timeoutHandlerQueuePush_def taskSetReady_tasks_fun taskSetReady_readyQueue_fun
        taskSetReady_timers timerListNodeDelete_member wokenTimerTask_def fun_upd_twist)
qed


definition timerStops :: "timerNode \<Rightarrow> bool" where
  "timerStops tm = (timerExpires tm \<and> mode tm = TIMER_MODE_SINGLE_SHOT \<and> isRunning tm)"

lemma wokenTimerTask_status:
  "status (wokenTimerTask k timerTask) \<noteq> TASK_STATUS_BLOCKED"
  by (simp add: wokenTimerTask_def)

lemma wokenTimerTask_cong:
  "tasks k1 = tasks k \<Longrightarrow> wokenTimerTask k1 = wokenTimerTask k"
  by (simp add: wokenTimerTask_def)

lemma processTimersLoop_effect:
  assumes "distinct ns" and "set ns \<subseteq> set (timerList k)" and "distinct (timerList k)"
  shows "\<exists>k'. processTimersLoop ns k = Some k'
    \<and> timers k' = (\<lambda>u. if u \<in> set ns then tickedTimer (timers k u) else timers k u)
    \<and> set (timerList k') = set (timerList k) - {u \<in> set ns. timerStops (timers k u)}
    \<and> timeoutHandlerQueue k' =
        timeoutHandlerQueue k
          @ map (\<lambda>u. timeoutHandler (timers k u)) (filter (\<lambda>u. timerExpires (timers k u)) ns)
    \<and> tasks k' =
        (if (\<exists>u \<in> set ns. timerExpires (timers k u)) \<and> status (tasks k timerTask) = TASK_STATUS_BLOCKED
         then wokenTimerTask k else tasks k)
    \<and> readyQueue k' =
        (if (\<exists>u \<in> set ns. timerExpires (timers k u)) \<and> status (tasks k timerTask) = TASK_STATUS_BLOCKED
         then taskQueueAdd (wokenTimerTask k) (readyQueue k) timerTask else readyQueue k)"
  using assms
proof (induction ns arbitrary: k)
  case Nil
  then show ?case by simp
next
  case (Cons n ns)
  have n_in: "n \<in> set (timerList k)" and n_notin: "n \<notin> set ns" and d_ns: "distinct ns"
    using Cons.prems by auto
  from processTimersNode_effect [OF n_in] obtain k1 where
    node: "processTimersNode k n = Some k1"
    and T1: "timers k1 = (timers k)(n := tickedTimer (timers k n))"
    and L1: "timerList k1 =
        (if timerExpires (timers k n) \<and> mode (timers k n) = TIMER_MODE_SINGLE_SHOT
            \<and> isRunning (timers k n)
         then remove1 n (timerList k) else timerList k)"
    and H1: "timeoutHandlerQueue k1 =
        timeoutHandlerQueue k @ (if timerExpires (timers k n) then [timeoutHandler (timers k n)] else [])"
    and K1: "tasks k1 =
        (if timerExpires (timers k n) \<and> status (tasks k timerTask) = TASK_STATUS_BLOCKED
         then wokenTimerTask k else tasks k)"
    and R1: "readyQueue k1 =
        (if timerExpires (timers k n) \<and> status (tasks k timerTask) = TASK_STATUS_BLOCKED
         then taskQueueAdd (wokenTimerTask k) (readyQueue k) timerTask else readyQueue k)"
    by blast
  have same: "\<And>u. u \<in> set ns \<Longrightarrow> timers k1 u = timers k u"
    using n_notin by (auto simp add: T1)
  have setL1: "set (timerList k1) = set (timerList k) - (if timerStops (timers k n) then {n} else {})"
    using Cons.prems(3) by (simp add: L1 timerStops_def)
  have sub1: "set ns \<subseteq> set (timerList k1)"
    using Cons.prems(2) n_notin by (auto simp add: setL1)
  have d1: "distinct (timerList k1)"
    using Cons.prems(3) by (simp add: L1)
  from Cons.IH [OF d_ns sub1 d1] obtain k' where
    loop: "processTimersLoop ns k1 = Some k'"
    and T: "timers k' = (\<lambda>u. if u \<in> set ns then tickedTimer (timers k1 u) else timers k1 u)"
    and L: "set (timerList k') = set (timerList k1) - {u \<in> set ns. timerStops (timers k1 u)}"
    and H: "timeoutHandlerQueue k' =
        timeoutHandlerQueue k1
          @ map (\<lambda>u. timeoutHandler (timers k1 u)) (filter (\<lambda>u. timerExpires (timers k1 u)) ns)"
    and K: "tasks k' =
        (if (\<exists>u \<in> set ns. timerExpires (timers k1 u)) \<and> status (tasks k1 timerTask) = TASK_STATUS_BLOCKED
         then wokenTimerTask k1 else tasks k1)"
    and R: "readyQueue k' =
        (if (\<exists>u \<in> set ns. timerExpires (timers k1 u)) \<and> status (tasks k1 timerTask) = TASK_STATUS_BLOCKED
         then taskQueueAdd (wokenTimerTask k1) (readyQueue k1) timerTask else readyQueue k1)"
    by blast
  have c1: "processTimersLoop (n # ns) k = Some k'"
    by (simp add: node loop)
  have c2: "timers k' = (\<lambda>u. if u \<in> set (n # ns) then tickedTimer (timers k u) else timers k u)"
    using n_notin by (auto simp add: T T1 fun_eq_iff)
  have c3: "set (timerList k') = set (timerList k) - {u \<in> set (n # ns). timerStops (timers k u)}"
    using same n_notin by (auto simp add: L setL1)
  have fl: "filter (\<lambda>u. timerExpires (timers k1 u)) ns = filter (\<lambda>u. timerExpires (timers k u)) ns"
    using same by (auto intro: filter_cong)
  have mp: "map (\<lambda>u. timeoutHandler (timers k1 u)) (filter (\<lambda>u. timerExpires (timers k u)) ns)
      = map (\<lambda>u. timeoutHandler (timers k u)) (filter (\<lambda>u. timerExpires (timers k u)) ns)"
    using same by (auto intro: map_cong)
  have c4: "timeoutHandlerQueue k' =
        timeoutHandlerQueue k
          @ map (\<lambda>u. timeoutHandler (timers k u)) (filter (\<lambda>u. timerExpires (timers k u)) (n # ns))"
    by (simp add: H H1 fl mp)
  have ex: "(\<exists>u \<in> set ns. timerExpires (timers k1 u)) = (\<exists>u \<in> set ns. timerExpires (timers k u))"
    using same by auto
  have c56: "tasks k' =
        (if (\<exists>u \<in> set (n # ns). timerExpires (timers k u)) \<and> status (tasks k timerTask) = TASK_STATUS_BLOCKED
         then wokenTimerTask k else tasks k)
    \<and> readyQueue k' =
        (if (\<exists>u \<in> set (n # ns). timerExpires (timers k u)) \<and> status (tasks k timerTask) = TASK_STATUS_BLOCKED
         then taskQueueAdd (wokenTimerTask k) (readyQueue k) timerTask else readyQueue k)"
  proof (cases "timerExpires (timers k n) \<and> status (tasks k timerTask) = TASK_STATUS_BLOCKED")
    case True
    then have "tasks k1 = wokenTimerTask k"
      and "readyQueue k1 = taskQueueAdd (wokenTimerTask k) (readyQueue k) timerTask"
      by (simp_all add: K1 R1)
    then show ?thesis
      using True wokenTimerTask_status [of k] by (simp add: K R)
  next
    case False
    then have e: "tasks k1 = tasks k" "readyQueue k1 = readyQueue k"
      by (auto simp add: K1 R1)
    from e(1) have "wokenTimerTask k1 = wokenTimerTask k"
      by (rule wokenTimerTask_cong)
    then show ?thesis
      using False e by (auto simp add: K R ex)
  qed
  show ?case
    using c1 c2 c3 c4 c56 by blast
qed


text \<open>
  C9. On each tick \<^verbatim>\<open>processTimers\<close> runs to its end, and for every running timer \<open>n\<close>
  on the timer list: \<^verbatim>\<open>ticksToExpire\<close> is decremented if positive; if the count is
  then 0, the timer's handler is pushed onto the timeout handler queue (the queue grows
  by the handlers of exactly the expiring timers, in list order), the timer task, if it
  is BLOCKED, is set ready with wakeup reason TIMER_TIMEOUT, \<^verbatim>\<open>ticksToExpire\<close> is
  reloaded to \<^verbatim>\<open>intervalTicks\<close>, a PERIODIC timer stays on the list and a SINGLE_SHOT
  timer is stopped: \<^verbatim>\<open>isRunning\<close> is cleared and the timer is unlinked.
\<close>

theorem processTimers_tick:
  assumes "distinct (timerList k)" and "n \<in> set (timerList k)" and "isRunning (timers k n)"
  shows "\<exists>k'. processTimers k = Some k' \<and>
    (let tm = timers k n;
         left = (if 0 < ticksToExpire tm then ticksToExpire tm - 1 else ticksToExpire tm)
     in (left \<noteq> 0 \<longrightarrow> timers k' n = tm\<lparr>ticksToExpire := left\<rparr> \<and> n \<in> set (timerList k'))
      \<and> (left = 0 \<and> mode tm = TIMER_MODE_PERIODIC \<longrightarrow>
            timers k' n = tm\<lparr>ticksToExpire := intervalTicks tm\<rparr> \<and> n \<in> set (timerList k'))
      \<and> (left = 0 \<and> mode tm = TIMER_MODE_SINGLE_SHOT \<longrightarrow>
            timers k' n = tm\<lparr>ticksToExpire := intervalTicks tm, isRunning := False\<rparr>
            \<and> n \<notin> set (timerList k'))
      \<and> (left = 0 \<longrightarrow>
            timeoutHandler tm \<in> set (timeoutHandlerQueue k')
            \<and> (status (tasks k timerTask) = TASK_STATUS_BLOCKED \<longrightarrow>
                 tasks k' timerTask = (tasks k timerTask)
                   \<lparr>remainingSleepTicks := 0, status := TASK_STATUS_READY, wakeupReason := TIMER_TIMEOUT\<rparr>
                 \<and> timerTask \<in> set (readyQueue k'))))
    \<and> timeoutHandlerQueue k' =
        timeoutHandlerQueue k
          @ map (\<lambda>u. timeoutHandler (timers k u))
              (filter (\<lambda>u. timerExpires (timers k u)) (timerList k))"
proof -
  from processTimersLoop_effect [OF assms(1) subset_refl assms(1)] obtain k' where
    loop: "processTimersLoop (timerList k) k = Some k'"
    and T: "timers k' = (\<lambda>u. if u \<in> set (timerList k) then tickedTimer (timers k u) else timers k u)"
    and L: "set (timerList k') = set (timerList k) - {u \<in> set (timerList k). timerStops (timers k u)}"
    and H: "timeoutHandlerQueue k' =
        timeoutHandlerQueue k
          @ map (\<lambda>u. timeoutHandler (timers k u)) (filter (\<lambda>u. timerExpires (timers k u)) (timerList k))"
    and K: "tasks k' =
        (if (\<exists>u \<in> set (timerList k). timerExpires (timers k u))
            \<and> status (tasks k timerTask) = TASK_STATUS_BLOCKED
         then wokenTimerTask k else tasks k)"
    and R: "readyQueue k' =
        (if (\<exists>u \<in> set (timerList k). timerExpires (timers k u))
            \<and> status (tasks k timerTask) = TASK_STATUS_BLOCKED
         then taskQueueAdd (wokenTimerTask k) (readyQueue k) timerTask else readyQueue k)"
    by blast
  let ?tm = "timers k n"
  let ?left = "if 0 < ticksToExpire ?tm then ticksToExpire ?tm - 1 else ticksToExpire ?tm"
  have run: "processTimers k = Some k'"
    using assms(2) loop by (auto simp add: processTimers_def)
  have tn: "timers k' n = tickedTimer ?tm"
    using assms(2) by (simp add: T)
  have ex: "(?left = 0) = timerExpires ?tm"
    by (simp add: timerExpires_def)
  have a: "?left \<noteq> 0 \<longrightarrow> timers k' n = ?tm\<lparr>ticksToExpire := ?left\<rparr> \<and> n \<in> set (timerList k')"
    using assms(2) by (auto simp add: tn L tickedTimer_def timerStops_def timerExpires_def word_gt_0)
  have b: "?left = 0 \<and> mode ?tm = TIMER_MODE_PERIODIC \<longrightarrow>
      timers k' n = ?tm\<lparr>ticksToExpire := intervalTicks ?tm\<rparr> \<and> n \<in> set (timerList k')"
    using assms(2) by (auto simp add: tn L tickedTimer_def timerStops_def ex)
  have c: "?left = 0 \<and> mode ?tm = TIMER_MODE_SINGLE_SHOT \<longrightarrow>
      timers k' n = ?tm\<lparr>ticksToExpire := intervalTicks ?tm, isRunning := False\<rparr>
      \<and> n \<notin> set (timerList k')"
    using assms(2,3) by (auto simp add: tn L tickedTimer_def timerStops_def ex)
  have d1: "?left = 0 \<longrightarrow> timeoutHandler ?tm \<in> set (timeoutHandlerQueue k')"
    using assms(2) by (auto simp add: H ex)
  have d2: "?left = 0 \<longrightarrow> status (tasks k timerTask) = TASK_STATUS_BLOCKED \<longrightarrow>
      tasks k' timerTask = (tasks k timerTask)
        \<lparr>remainingSleepTicks := 0, status := TASK_STATUS_READY, wakeupReason := TIMER_TIMEOUT\<rparr>
      \<and> timerTask \<in> set (readyQueue k')"
    using assms(2) by (auto simp add: K R ex wokenTimerTask_def set_taskQueueAdd)
  show ?thesis
    unfolding Let_def using run a b c d1 d2 H by blast
qed

text \<open>Three running timers: timer 12 (periodic, 5 ticks left), timer 11 (single shot, one
  tick left, handler 8) and timer 10 (periodic with interval 3, one tick left, handler 7);
  the timer task is BLOCKED.\<close>

definition demoTimers :: kernel where
  "demoTimers = demoKernel
     \<lparr>timers := (timers demoKernel)
        (10 := \<lparr>intervalTicks = 3, ticksToExpire = 1, mode = TIMER_MODE_PERIODIC,
               isRunning = True, timeoutHandler = 7\<rparr>,
         11 := \<lparr>intervalTicks = 4, ticksToExpire = 1, mode = TIMER_MODE_SINGLE_SHOT,
               isRunning = True, timeoutHandler = 8\<rparr>,
         12 := \<lparr>intervalTicks = 9, ticksToExpire = 5, mode = TIMER_MODE_PERIODIC,
               isRunning = True, timeoutHandler = 9\<rparr>),
      timerList := [12, 11, 10]\<rparr>"

lemma demoTimers_facts:
  "timerList demoTimers = [12, 11, 10]"
  "timers demoTimers 10 = \<lparr>intervalTicks = 3, ticksToExpire = 1, mode = TIMER_MODE_PERIODIC,
               isRunning = True, timeoutHandler = 7\<rparr>"
  "timers demoTimers 11 = \<lparr>intervalTicks = 4, ticksToExpire = 1, mode = TIMER_MODE_SINGLE_SHOT,
               isRunning = True, timeoutHandler = 8\<rparr>"
  "timers demoTimers 12 = \<lparr>intervalTicks = 9, ticksToExpire = 5, mode = TIMER_MODE_PERIODIC,
               isRunning = True, timeoutHandler = 9\<rparr>"
  "timeoutHandlerQueue demoTimers = []"
  "status (tasks demoTimers timerTask) = TASK_STATUS_BLOCKED"
  by (simp_all add: demoTimers_def demoKernel_def demoTasks_def mkTask_def timerTask_def)

theorem processTimers_tick_witness:
  "distinct (timerList demoTimers) \<and> 11 \<in> set (timerList demoTimers)
   \<and> isRunning (timers demoTimers 11)
   \<and> (\<exists>k'. processTimers demoTimers = Some k'
        \<and> timers k' 11 = \<lparr>intervalTicks = 4, ticksToExpire = 4, mode = TIMER_MODE_SINGLE_SHOT,
               isRunning = False, timeoutHandler = 8\<rparr>
        \<and> 11 \<notin> set (timerList k')
        \<and> timeoutHandlerQueue k' = [8, 7]
        \<and> status (tasks k' timerTask) = TASK_STATUS_READY
        \<and> wakeupReason (tasks k' timerTask) = TIMER_TIMEOUT)"
proof -
  have h: "distinct (timerList demoTimers)" "11 \<in> set (timerList demoTimers)"
    "isRunning (timers demoTimers 11)"
    by (simp_all add: demoTimers_facts)
  from processTimers_tick [OF h] obtain k' where
    "processTimers demoTimers = Some k'"
    "timers k' 11 = \<lparr>intervalTicks = 4, ticksToExpire = 4, mode = TIMER_MODE_SINGLE_SHOT,
               isRunning = False, timeoutHandler = 8\<rparr>"
    "11 \<notin> set (timerList k')"
    "timeoutHandlerQueue k' = [8, 7]"
    "status (tasks k' timerTask) = TASK_STATUS_READY"
    "wakeupReason (tasks k' timerTask) = TIMER_TIMEOUT"
    by (auto simp add: Let_def demoTimers_facts timerExpires_def)
  then show ?thesis
    using h by blast
qed

section \<open>Message queue (messageQueue.c)\<close>

text \<open>
  Modelled from the spec: \<^verbatim>\<open>msgQueueFull\<close> and \<^verbatim>\<open>msgQueueEmpty\<close> come from
  messageQueue.h, which is not among the sources. "Invariant: 0 \<le> itemCount \<le>
  queueLength": the queue is full when \<open>itemCount\<close> has reached \<open>queueLength\<close> and empty
  when \<open>itemCount\<close> is 0.
\<close>

definition msgQueueFull :: "msgQueueHandle \<Rightarrow> bool" where
  "msgQueueFull mq = (itemCount mq = queueLength mq)"

text \<open>Modelled from the spec: \<^verbatim>\<open>msgQueueEmpty\<close> of messageQueue.h, as said above.\<close>

definition msgQueueEmpty :: "msgQueueHandle \<Rightarrow> bool" where
  "msgQueueEmpty mq = (itemCount mq = 0)"

text \<open>
  \<^verbatim>\<open>msgQueueBufferWrite\<close>. The item is the byte sequence \<^verbatim>\<open>pItem\<close> points to, of which
  \<^verbatim>\<open>memcpy\<close> reads the first \<open>itemSize\<close> bytes. The result is \<open>None\<close> where the C
  code has no defined behaviour: the copy would leave the buffer or the item, or the
  modulus is 0.
\<close>

definition msgQueueBufferWrite :: "kernel \<Rightarrow> nat \<Rightarrow> 8 word list \<Rightarrow> kernel option" where
  "msgQueueBufferWrite k q item =
     (let mq = msgQueues k q in
      if length (buffer mq) < writeIndex mq + itemSize mq \<or> length item < itemSize mq
         \<or> queueLength mq * itemSize mq = 0
      then None
      else
        (let mq1 = mq\<lparr>buffer := take (writeIndex mq) (buffer mq) @ take (itemSize mq) item
                                  @ drop (writeIndex mq + itemSize mq) (buffer mq)\<rparr>;
             mq2 = mq1\<lparr>writeIndex :=
                         (writeIndex mq1 + itemSize mq1) mod (queueLength mq1 * itemSize mq1)\<rparr>;
             mq3 = mq2\<lparr>itemCount := itemCount mq2 + 1\<rparr>;
             (consumer, cq) = taskQueueGet (consumerWaitQueue mq3);
             k1 = k\<lparr>msgQueues := (msgQueues k)(q := mq3\<lparr>consumerWaitQueue := cq\<rparr>)\<rparr>
         in Some (case consumer of
                    Some c \<Rightarrow> taskSetReady k1 c MSG_QUEUE_DATA_AVAILABLE
                  | None \<Rightarrow> k1)))"

text \<open>
  \<^verbatim>\<open>msgQueueBufferRead\<close>: the bytes copied to \<^verbatim>\<open>pItem\<close> and the new state. It is only
  called on a non-empty queue, so the decrement of \<open>itemCount\<close> does not wrap.
\<close>

definition msgQueueBufferRead :: "kernel \<Rightarrow> nat \<Rightarrow> (8 word list \<times> kernel) option" where
  "msgQueueBufferRead k q =
     (let mq = msgQueues k q in
      if length (buffer mq) < readIndex mq + itemSize mq \<or> queueLength mq * itemSize mq = 0
      then None
      else
        (let item = take (itemSize mq) (drop (readIndex mq) (buffer mq));
             mq1 = mq\<lparr>readIndex :=
                        (readIndex mq + itemSize mq) mod (queueLength mq * itemSize mq)\<rparr>;
             mq2 = mq1\<lparr>itemCount := itemCount mq1 - 1\<rparr>;
             (producer, pq) = taskQueueGet (producerWaitQueue mq2);
             k1 = k\<lparr>msgQueues := (msgQueues k)(q := mq2\<lparr>producerWaitQueue := pq\<rparr>)\<rparr>
         in Some (item,
                  case producer of
                    Some p \<Rightarrow> taskSetReady k1 p MSG_QUEUE_SPACE_AVAILABE
                  | None \<Rightarrow> k1)))"

text \<open>
  \<^verbatim>\<open>msgQueueSend\<close> up to its return or its block; the queue handle may be null. After a
  block the call continues in \<open>msgQueueSend_resume\<close>.
\<close>

definition msgQueueSend ::
  "bool \<Rightarrow> kernel \<Rightarrow> nat option \<Rightarrow> 8 word list \<Rightarrow> 32 word \<Rightarrow> msgRetCode outcome" where
  "msgQueueSend tasksRunPriv k pQueueHandle item waitTicks =
     (case pQueueHandle of
        None \<Rightarrow> Returned NEG_EINVAL k
      | Some q \<Rightarrow>
          if \<not> msgQueueFull (msgQueues k q) then
            (case msgQueueBufferWrite k q item of
               None \<Rightarrow> Undefined
             | Some k1 \<Rightarrow> Returned SUCCESS k1)
          else if waitTicks = TASK_NO_WAIT then Returned NEG_ENOSPACE k
          else
            (let cur = taskPool_currentTask k;
                 k1 = k\<lparr>msgQueues := (msgQueues k)(q := (msgQueues k q)
                        \<lparr>producerWaitQueue :=
                           taskQueueAdd (tasks k) (producerWaitQueue (msgQueues k q)) cur\<rparr>)\<rparr>
             in Suspended AfterMsgQueueSpaceBlock
                  (taskBlock tasksRunPriv k1 cur WAIT_FOR_MSG_QUEUE_SPACE waitTicks)))"

definition msgQueueSend_resume ::
  "kernel \<Rightarrow> nat \<Rightarrow> nat \<Rightarrow> 8 word list \<Rightarrow> msgRetCode outcome" where
  "msgQueueSend_resume k q cur item =
     (if wakeupReason (tasks k cur) = MSG_QUEUE_SPACE_AVAILABE \<and> \<not> msgQueueFull (msgQueues k q)
      then (case msgQueueBufferWrite k q item of
              None \<Rightarrow> Undefined
            | Some k1 \<Rightarrow> Returned SUCCESS k1)
      else Returned NEG_ETIMEOUT k)"

text \<open>
  \<^verbatim>\<open>msgQueueReceive\<close>: the result is the return code together with the bytes written to
  \<^verbatim>\<open>pItem\<close>, if any were.
\<close>

definition msgQueueReceive ::
  "bool \<Rightarrow> kernel \<Rightarrow> nat option \<Rightarrow> 32 word \<Rightarrow> (msgRetCode \<times> 8 word list option) outcome" where
  "msgQueueReceive tasksRunPriv k pQueueHandle waitTicks =
     (case pQueueHandle of
        None \<Rightarrow> Returned (NEG_EINVAL, None) k
      | Some q \<Rightarrow>
          if \<not> msgQueueEmpty (msgQueues k q) then
            (case msgQueueBufferRead k q of
               None \<Rightarrow> Undefined
             | Some (item, k1) \<Rightarrow> Returned (SUCCESS, Some item) k1)
          else if waitTicks = TASK_NO_WAIT then Returned (NEG_ENODATA, None) k
          else
            (let cur = taskPool_currentTask k;
                 k1 = k\<lparr>msgQueues := (msgQueues k)(q := (msgQueues k q)
                        \<lparr>consumerWaitQueue :=
                           taskQueueAdd (tasks k) (consumerWaitQueue (msgQueues k q)) cur\<rparr>)\<rparr>
             in Suspended AfterMsgQueueDataBlock
                  (taskBlock tasksRunPriv k1 cur WAIT_FOR_MSG_QUEUE_DATA waitTicks)))"

definition msgQueueReceive_resume ::
  "kernel \<Rightarrow> nat \<Rightarrow> nat \<Rightarrow> (msgRetCode \<times> 8 word list option) outcome" where
  "msgQueueReceive_resume k q cur =
     (if wakeupReason (tasks k cur) = MSG_QUEUE_DATA_AVAILABLE \<and> \<not> msgQueueEmpty (msgQueues k q)
      then (case msgQueueBufferRead k q of
              None \<Rightarrow> Undefined
            | Some (item, k1) \<Rightarrow> Returned (SUCCESS, Some item) k1)
      else Returned (NEG_ETIMEOUT, None) k)"

text \<open>
  Sending a sequence of items one after the other, each send returning SUCCESS at once,
  and receiving a number of items in the same way. \<open>None\<close> stands for a run in which
  some call returned another code, blocked, or had no defined behaviour.
\<close>

fun msgQueueSendAll ::
  "bool \<Rightarrow> kernel \<Rightarrow> nat \<Rightarrow> 8 word list list \<Rightarrow> 32 word \<Rightarrow> kernel option" where
  "msgQueueSendAll priv k q [] w = Some k"
| "msgQueueSendAll priv k q (x # xs) w =
     (case msgQueueSend priv k (Some q) x w of
        Returned SUCCESS k1 \<Rightarrow> msgQueueSendAll priv k1 q xs w
      | _ \<Rightarrow> None)"

fun msgQueueReceiveN ::
  "bool \<Rightarrow> kernel \<Rightarrow> nat \<Rightarrow> nat \<Rightarrow> 32 word \<Rightarrow> (8 word list list \<times> kernel) option" where
  "msgQueueReceiveN priv k q 0 w = Some ([], k)"
| "msgQueueReceiveN priv k q (Suc n) w =
     (case msgQueueReceive priv k (Some q) w of
        Returned (SUCCESS, Some x) k1 \<Rightarrow>
          (case msgQueueReceiveN priv k1 q n w of
             None \<Rightarrow> None
           | Some (xs, k2) \<Rightarrow> Some (x # xs, k2))
      | _ \<Rightarrow> None)"

text \<open>A queue of three slots of two bytes, empty, with both indices at the last slot:
  the second item sent wraps around to the start of the buffer.\<close>

definition demoQueue :: kernel where
  "demoQueue = demoKernel
     \<lparr>msgQueues := (msgQueues demoKernel)
        (0 := \<lparr>buffer = [0, 0, 0, 0, 0, 0], queueLength = 3, itemSize = 2, itemCount = 0,
               readIndex = 4, writeIndex = 4, producerWaitQueue = [],
               consumerWaitQueue = []\<rparr>)\<rparr>"

subsection \<open>The ring buffer holds a FIFO sequence\<close>

lemma slot_after_write:
  fixes buf x :: "'a list"
  assumes len: "length buf = L * S" and j: "j < L" and s: "s < L" and x: "length x = S"
  shows "take S (drop (s * S) (take (j * S) buf @ x @ drop (j * S + S) buf)) =
           (if s = j then x else take S (drop (s * S) buf))"
proof -
  have jS: "j * S + S \<le> L * S"
    using j mult_le_mono1 [of "Suc j" L S] by simp
  have lt: "length (take (j * S) buf) = j * S"
    using jS len by simp
  consider "s = j" | "s < j" | "j < s" by linarith
  then show ?thesis
  proof cases
    case 1
    then show ?thesis using lt x by simp
  next
    case 2
    then have le: "s * S + S \<le> j * S"
      using mult_le_mono1 [of "Suc s" j S] by simp
    then have "min S (j * S - s * S) = S" by simp
    then show ?thesis
      using 2 lt le by (simp add: drop_take)
  next
    case 3
    then have le: "j * S + S \<le> s * S"
      using mult_le_mono1 [of "Suc j" s S] by simp
    then have "s * S - j * S - S + (j * S + S) = s * S" by simp
    then show ?thesis
      using 3 lt le x by (simp add: add.commute)
  qed
qed

lemma ring_slots_distinct:
  assumes "i < n" and "n < (L::nat)"
  shows "(r + i) mod L \<noteq> (r + n) mod L"
proof
  assume "(r + i) mod L = (r + n) mod L"
  then have "(r + n) mod L = (r + i) mod L" by simp
  moreover have "r + i \<le> r + n" using assms by simp
  ultimately have "L dvd (r + n) - (r + i)"
    by (simp add: mod_eq_dvd_iff_nat)
  then have "L dvd n - i" by simp
  moreover have "0 < n - i" and "n - i < L" using assms by simp_all
  ultimately show False
    using nat_dvd_not_less by blast
qed

lemma ring_index_step:
  "(j * S + S) mod (L * S) = (Suc j mod L) * (S::nat)"
  using mod_mult_mult2 [of "Suc j" S L] by (simp add: add.commute)


text \<open>
  \<open>ringHolds S L mq r items\<close>: the queue \<open>mq\<close>, of \<open>L\<close> slots of \<open>S\<close> bytes, holds the
  items \<open>items\<close>, oldest first, in the slots \<open>r\<close>, \<open>r + 1\<close>, ... taken modulo \<open>L\<close>.
\<close>

definition ringSlot :: "msgQueueHandle \<Rightarrow> nat \<Rightarrow> 8 word list" where
  "ringSlot mq i = take (itemSize mq) (drop (i * itemSize mq) (buffer mq))"

definition ringHolds :: "nat \<Rightarrow> nat \<Rightarrow> msgQueueHandle \<Rightarrow> nat \<Rightarrow> 8 word list list \<Rightarrow> bool" where
  "ringHolds S L mq r items =
     (itemSize mq = S \<and> queueLength mq = L \<and> 0 < S \<and> length (buffer mq) = L * S
      \<and> r < L \<and> itemCount mq = length items \<and> length items \<le> L
      \<and> readIndex mq = r * S
      \<and> writeIndex mq = ((r + length items) mod L) * S
      \<and> (\<forall>i < length items. ringSlot mq ((r + i) mod L) = items ! i))"

lemma ringHolds_waitQueues:
  "ringHolds S L (mq\<lparr>producerWaitQueue := pq, consumerWaitQueue := cq\<rparr>) r items
     = ringHolds S L mq r items"
  "ringHolds S L (mq\<lparr>consumerWaitQueue := cq\<rparr>) r items = ringHolds S L mq r items"
  "ringHolds S L (mq\<lparr>producerWaitQueue := pq\<rparr>) r items = ringHolds S L mq r items"
  by (simp_all add: ringHolds_def ringSlot_def)

text \<open>The data part of a buffer write and of a buffer read.\<close>

lemma ringHolds_write:
  assumes h: "ringHolds S L mq r items" and room: "length items < L" and x: "length x = S"
  shows "ringHolds S L
           (mq\<lparr>buffer := take (writeIndex mq) (buffer mq) @ take S x @ drop (writeIndex mq + S) (buffer mq),
               writeIndex := (writeIndex mq + S) mod (L * S),
               itemCount := itemCount mq + 1\<rparr>)
           r (items @ [x])"
proof -
  let ?n = "length items"
  let ?j = "(r + ?n) mod L"
  define buf' where "buf' = take (?j * S) (buffer mq) @ x @ drop (?j * S + S) (buffer mq)"
  from h have S: "itemSize mq = S" and L: "queueLength mq = L" and S0: "0 < S"
    and len: "length (buffer mq) = L * S" and r: "r < L" and cnt: "itemCount mq = ?n"
    and rd: "readIndex mq = r * S" and wr: "writeIndex mq = ?j * S"
    and slots: "\<forall>i < ?n. ringSlot mq ((r + i) mod L) = items ! i"
    by (simp_all add: ringHolds_def)
  have L0: "0 < L" using r by simp
  have j: "?j < L" using L0 by simp
  have jS: "?j * S + S \<le> L * S"
    using j mult_le_mono1 [of "Suc ?j" L S] by simp
  have len': "length buf' = L * S"
    using jS len x by (simp add: buf'_def)
  have slot: "\<And>s. s < L \<Longrightarrow> take S (drop (s * S) buf') =
      (if s = ?j then x else take S (drop (s * S) (buffer mq)))"
    unfolding buf'_def using slot_after_write [OF len j _ x] by blast
  have wr': "(?j * S + S) mod (L * S) = ((r + Suc ?n) mod L) * S"
    by (simp add: ring_index_step mod_Suc_eq)
  have new: "\<forall>i < Suc ?n. take S (drop (((r + i) mod L) * S) buf') = (items @ [x]) ! i"
  proof (intro allI impI)
    fix i assume i: "i < Suc ?n"
    have iL: "(r + i) mod L < L" using L0 by simp
    show "take S (drop (((r + i) mod L) * S) buf') = (items @ [x]) ! i"
    proof (cases "i = ?n")
      case True
      then show ?thesis using slot [OF iL] by simp
    next
      case False
      then have lt: "i < ?n" using i by simp
      then have "(r + i) mod L \<noteq> ?j"
        using ring_slots_distinct [OF lt room] by simp
      then have "take S (drop (((r + i) mod L) * S) buf') = ringSlot mq ((r + i) mod L)"
        using slot [OF iL] by (simp add: ringSlot_def S)
      then show ?thesis
        using slots lt by (simp add: nth_append)
    qed
  qed
  have rec: "mq\<lparr>buffer := take (writeIndex mq) (buffer mq) @ take S x @ drop (writeIndex mq + S) (buffer mq),
               writeIndex := (writeIndex mq + S) mod (L * S),
               itemCount := itemCount mq + 1\<rparr>
      = mq\<lparr>buffer := buf', writeIndex := ((r + Suc ?n) mod L) * S, itemCount := Suc ?n\<rparr>"
    using x by (simp add: buf'_def wr wr' cnt)
  show ?thesis
    unfolding rec using S L S0 len' r rd room new
    by (simp add: ringHolds_def ringSlot_def)
qed

lemma ringHolds_read:
  assumes h: "ringHolds S L mq r (x # items)"
  shows "take S (drop (readIndex mq) (buffer mq)) = x"
    and "readIndex mq + S \<le> length (buffer mq)"
    and "ringHolds S L
           (mq\<lparr>readIndex := (readIndex mq + S) mod (L * S), itemCount := itemCount mq - 1\<rparr>)
           (Suc r mod L) items"
proof -
  let ?n = "length items"
  from h have S: "itemSize mq = S" and L: "queueLength mq = L" and S0: "0 < S"
    and len: "length (buffer mq) = L * S" and r: "r < L" and cnt: "itemCount mq = Suc ?n"
    and n: "Suc ?n \<le> L"
    and rd: "readIndex mq = r * S" and wr: "writeIndex mq = ((r + Suc ?n) mod L) * S"
    and slots: "\<forall>i < Suc ?n. ringSlot mq ((r + i) mod L) = (x # items) ! i"
    by (simp_all add: ringHolds_def)
  have L0: "0 < L" using r by simp
  from slots have "ringSlot mq ((r + 0) mod L) = (x # items) ! 0" by blast
  then show "take S (drop (readIndex mq) (buffer mq)) = x"
    using r by (simp add: ringSlot_def S rd)
  show "readIndex mq + S \<le> length (buffer mq)"
    using r mult_le_mono1 [of "Suc r" L S] by (simp add: rd len)
  have rd': "(r * S + S) mod (L * S) = (Suc r mod L) * S"
    by (rule ring_index_step)
  have wr': "(Suc r mod L + ?n) mod L = (r + Suc ?n) mod L"
    by (simp add: mod_add_left_eq)
  have rest: "\<forall>i < ?n. ringSlot mq ((Suc r mod L + i) mod L) = items ! i"
  proof (intro allI impI)
    fix i assume i: "i < ?n"
    have "(Suc r mod L + i) mod L = (r + Suc i) mod L"
      by (simp add: mod_add_left_eq)
    moreover have "ringSlot mq ((r + Suc i) mod L) = (x # items) ! Suc i"
      using slots i by (metis Suc_less_eq)
    ultimately show "ringSlot mq ((Suc r mod L + i) mod L) = items ! i"
      by simp
  qed
  show "ringHolds S L
           (mq\<lparr>readIndex := (readIndex mq + S) mod (L * S), itemCount := itemCount mq - 1\<rparr>)
           (Suc r mod L) items"
    using S L S0 len L0 cnt n rest wr
    by (simp add: ringHolds_def ringSlot_def rd rd' wr')
qed


text \<open>The fields of a queue that carry its data, without the two wait queues.\<close>

definition msgData :: "msgQueueHandle \<Rightarrow> 8 word list \<times> nat \<times> nat \<times> nat \<times> nat \<times> nat" where
  "msgData mq = (buffer mq, queueLength mq, itemSize mq, itemCount mq, readIndex mq, writeIndex mq)"

lemma ringHolds_msgData:
  "msgData mq' = msgData mq \<Longrightarrow> ringHolds S L mq' r items = ringHolds S L mq r items"
  by (simp add: msgData_def ringHolds_def ringSlot_def)

lemma msgQueueBufferWrite_data:
  assumes "writeIndex (msgQueues k q) + itemSize (msgQueues k q) \<le> length (buffer (msgQueues k q))"
      and "itemSize (msgQueues k q) \<le> length x"
      and "queueLength (msgQueues k q) * itemSize (msgQueues k q) \<noteq> 0"
  shows "\<exists>k'. msgQueueBufferWrite k q x = Some k'
    \<and> msgData (msgQueues k' q) = msgData
        ((msgQueues k q)
          \<lparr>buffer := take (writeIndex (msgQueues k q)) (buffer (msgQueues k q))
                       @ take (itemSize (msgQueues k q)) x
                       @ drop (writeIndex (msgQueues k q) + itemSize (msgQueues k q)) (buffer (msgQueues k q)),
           writeIndex := (writeIndex (msgQueues k q) + itemSize (msgQueues k q))
                           mod (queueLength (msgQueues k q) * itemSize (msgQueues k q)),
           itemCount := itemCount (msgQueues k q) + 1\<rparr>)"
  using assms
  by (cases "consumerWaitQueue (msgQueues k q)")
     (simp_all add: msgQueueBufferWrite_def Let_def taskQueueGet_def not_less
        taskSetReady_msgQueues msgData_def)

lemma msgQueueBufferRead_data:
  assumes "readIndex (msgQueues k q) + itemSize (msgQueues k q) \<le> length (buffer (msgQueues k q))"
      and "queueLength (msgQueues k q) * itemSize (msgQueues k q) \<noteq> 0"
  shows "\<exists>k'. msgQueueBufferRead k q =
        Some (take (itemSize (msgQueues k q)) (drop (readIndex (msgQueues k q)) (buffer (msgQueues k q))), k')
    \<and> msgData (msgQueues k' q) = msgData
        ((msgQueues k q)
          \<lparr>readIndex := (readIndex (msgQueues k q) + itemSize (msgQueues k q))
                           mod (queueLength (msgQueues k q) * itemSize (msgQueues k q)),
           itemCount := itemCount (msgQueues k q) - 1\<rparr>)"
  using assms
  by (cases "producerWaitQueue (msgQueues k q)")
     (simp_all add: msgQueueBufferRead_def Let_def taskQueueGet_def not_less
        taskSetReady_msgQueues msgData_def)


lemma msgQueueSend_step:
  assumes h: "ringHolds S L (msgQueues k q) r items" and room: "length items < L"
      and x: "length x = S"
  shows "\<exists>k'. msgQueueSend priv k (Some q) x w = Returned SUCCESS k'
           \<and> ringHolds S L (msgQueues k' q) r (items @ [x])"
proof -
  let ?mq = "msgQueues k q"
  let ?j = "(r + length items) mod L"
  from h have S: "itemSize ?mq = S" and L: "queueLength ?mq = L" and S0: "0 < S"
    and len: "length (buffer ?mq) = L * S" and r: "r < L" and cnt: "itemCount ?mq = length items"
    and wr: "writeIndex ?mq = ?j * S"
    by (simp_all add: ringHolds_def)
  have j: "?j < L" using r by simp
  have jS: "?j * S + S \<le> L * S"
    using j mult_le_mono1 [of "Suc ?j" L S] by simp
  have notfull: "\<not> msgQueueFull ?mq"
    using room by (simp add: msgQueueFull_def cnt L)
  have a1: "writeIndex ?mq + itemSize ?mq \<le> length (buffer ?mq)"
    using jS by (simp add: wr S len)
  have a2: "itemSize ?mq \<le> length x" by (simp add: S x)
  have a3: "queueLength ?mq * itemSize ?mq \<noteq> 0"
    using r S0 by (simp add: S L)
  from msgQueueBufferWrite_data [OF a1 a2 a3] obtain k' where
    w: "msgQueueBufferWrite k q x = Some k'"
    and d: "msgData (msgQueues k' q) = msgData
        (?mq\<lparr>buffer := take (writeIndex ?mq) (buffer ?mq) @ take S x @ drop (writeIndex ?mq + S) (buffer ?mq),
             writeIndex := (writeIndex ?mq + S) mod (L * S),
             itemCount := itemCount ?mq + 1\<rparr>)"
    by (auto simp add: S L)
  have "ringHolds S L (msgQueues k' q) r (items @ [x])"
    using ringHolds_msgData [OF d] ringHolds_write [OF h room x] by simp
  then show ?thesis
    using notfull w by (simp add: msgQueueSend_def)
qed

lemma msgQueueReceive_step:
  assumes h: "ringHolds S L (msgQueues k q) r (x # items)"
  shows "\<exists>k'. msgQueueReceive priv k (Some q) w = Returned (SUCCESS, Some x) k'
           \<and> ringHolds S L (msgQueues k' q) (Suc r mod L) items"
proof -
  let ?mq = "msgQueues k q"
  from h have S: "itemSize ?mq = S" and L: "queueLength ?mq = L" and S0: "0 < S"
    and r: "r < L" and cnt: "itemCount ?mq = Suc (length items)"
    by (simp_all add: ringHolds_def)
  note rd = ringHolds_read [OF h]
  have notempty: "\<not> msgQueueEmpty ?mq"
    by (simp add: msgQueueEmpty_def cnt)
  have a1: "readIndex ?mq + itemSize ?mq \<le> length (buffer ?mq)"
    using rd(2) by (simp add: S)
  have a2: "queueLength ?mq * itemSize ?mq \<noteq> 0"
    using r S0 by (simp add: S L)
  from msgQueueBufferRead_data [OF a1 a2] obtain k' where
    rr: "msgQueueBufferRead k q = Some (take S (drop (readIndex ?mq) (buffer ?mq)), k')"
    and d: "msgData (msgQueues k' q) = msgData
        (?mq\<lparr>readIndex := (readIndex ?mq + S) mod (L * S), itemCount := itemCount ?mq - 1\<rparr>)"
    by (auto simp add: S L)
  have "ringHolds S L (msgQueues k' q) (Suc r mod L) items"
    using ringHolds_msgData [OF d] rd(3) by simp
  then show ?thesis
    using notempty rr rd(1) by (simp add: msgQueueReceive_def)
qed

lemma msgQueueSendAll_holds:
  assumes "ringHolds S L (msgQueues k q) r items" and "length items + length xs \<le> L"
      and "\<forall>x \<in> set xs. length x = S"
  shows "\<exists>k'. msgQueueSendAll priv k q xs w = Some k'
           \<and> ringHolds S L (msgQueues k' q) r (items @ xs)"
  using assms
proof (induction xs arbitrary: k items)
  case Nil
  then show ?case by simp
next
  case (Cons x xs)
  have room: "length items < L" and x: "length x = S"
    using Cons.prems by simp_all
  from msgQueueSend_step [OF Cons.prems(1) room x, of priv w] obtain k1 where
    s: "msgQueueSend priv k (Some q) x w = Returned SUCCESS k1"
    and h1: "ringHolds S L (msgQueues k1 q) r (items @ [x])"
    by blast
  have "length (items @ [x]) + length xs \<le> L" and "\<forall>y \<in> set xs. length y = S"
    using Cons.prems by simp_all
  from Cons.IH [OF h1 this] obtain k' where
    "msgQueueSendAll priv k1 q xs w = Some k'"
    and "ringHolds S L (msgQueues k' q) r ((items @ [x]) @ xs)"
    by blast
  then show ?case
    using s by simp
qed

lemma msgQueueReceiveN_holds:
  assumes "ringHolds S L (msgQueues k q) r items" and "n \<le> length items"
  shows "\<exists>k'. msgQueueReceiveN priv k q n w = Some (take n items, k')
           \<and> ringHolds S L (msgQueues k' q) ((r + n) mod L) (drop n items)"
  using assms
proof (induction n arbitrary: k r items)
  case 0
  then show ?case by (simp add: ringHolds_def)
next
  case (Suc n)
  then obtain x rest where items: "items = x # rest"
    by (cases items) auto
  from msgQueueReceive_step [of S L k q r x rest priv w] Suc.prems(1) items obtain k1 where
    rc: "msgQueueReceive priv k (Some q) w = Returned (SUCCESS, Some x) k1"
    and h1: "ringHolds S L (msgQueues k1 q) (Suc r mod L) rest"
    by blast
  have "n \<le> length rest" using Suc.prems(2) items by simp
  from Suc.IH [OF h1 this] obtain k' where
    rn: "msgQueueReceiveN priv k1 q n w = Some (take n rest, k')"
    and h': "ringHolds S L (msgQueues k' q) ((Suc r mod L + n) mod L) (drop n rest)"
    by blast
  have "(Suc r mod L + n) mod L = (r + Suc n) mod L"
    by (simp add: mod_add_left_eq)
  then show ?case
    using rc rn h' items by simp
qed


lemma ring_index_eq:
  "((r + n) mod L) * S = (r * S + n * S) mod (L * (S::nat))"
  using mod_mult_mult2 [of "r + n" S L] by (simp add: add_mult_distrib)

lemma ringHolds_indices:
  assumes "ringHolds S L mq r items"
  shows "itemCount mq = length items"
    and "readIndex mq = r * S"
    and "writeIndex mq = (r * S + length items * S) mod (L * S)"
    and "itemSize mq = S" and "queueLength mq = L"
  using assms by (simp_all add: ringHolds_def ring_index_eq)

text \<open>
  C7. Message queue byte-exact FIFO round trip. Take a message queue with a buffer of
  \<open>queueLength \<sqdot> itemSize\<close> bytes that is empty, with the read and the write index at the
  same slot boundary inside the buffer, and items \<open>x\<^sub>1 \<dots> x\<^sub>n\<close>, \<open>n \<le> queueLength\<close>, each
  of \<open>itemSize\<close> bytes. Then the \<open>n\<close> calls of \<^verbatim>\<open>msgQueueSend\<close> all return SUCCESS without
  blocking, and \<open>n\<close> calls of \<^verbatim>\<open>msgQueueReceive\<close> after them all return SUCCESS and yield
  exactly \<open>x\<^sub>1 \<dots> x\<^sub>n\<close> in order. After the first \<open>i\<close> sends \<open>itemCount\<close> is \<open>i\<close> and
  \<open>writeIndex\<close> has advanced by \<open>i \<sqdot> itemSize\<close> modulo \<open>queueLength \<sqdot> itemSize\<close>; after the
  first \<open>j\<close> receives \<open>itemCount\<close> is \<open>n - j\<close> and \<open>readIndex\<close> has advanced by
  \<open>j \<sqdot> itemSize\<close> modulo \<open>queueLength \<sqdot> itemSize\<close>. The wait ticks passed to the calls do
  not matter.
\<close>

theorem msgQueue_roundtrip:
  assumes empty: "itemCount (msgQueues k q) = 0"
      and same: "readIndex (msgQueues k q) = writeIndex (msgQueues k q)"
      and inside: "writeIndex (msgQueues k q) < queueLength (msgQueues k q) * itemSize (msgQueues k q)"
      and aligned: "writeIndex (msgQueues k q) mod itemSize (msgQueues k q) = 0"
      and buf: "length (buffer (msgQueues k q)) = queueLength (msgQueues k q) * itemSize (msgQueues k q)"
      and n: "length xs \<le> queueLength (msgQueues k q)"
      and sizes: "\<forall>x \<in> set xs. length x = itemSize (msgQueues k q)"
  shows "\<exists>k1 k2.
      msgQueueSendAll priv k q xs w = Some k1
    \<and> msgQueueReceiveN priv k1 q (length xs) w' = Some (xs, k2)
    \<and> (\<forall>i \<le> length xs. \<exists>ki.
          msgQueueSendAll priv k q (take i xs) w = Some ki
        \<and> itemCount (msgQueues ki q) = i
        \<and> writeIndex (msgQueues ki q) =
            (writeIndex (msgQueues k q) + i * itemSize (msgQueues k q))
              mod (queueLength (msgQueues k q) * itemSize (msgQueues k q))
        \<and> readIndex (msgQueues ki q) = readIndex (msgQueues k q))
    \<and> (\<forall>j \<le> length xs. \<exists>kj.
          msgQueueReceiveN priv k1 q j w' = Some (take j xs, kj)
        \<and> itemCount (msgQueues kj q) = length xs - j
        \<and> readIndex (msgQueues kj q) =
            (readIndex (msgQueues k q) + j * itemSize (msgQueues k q))
              mod (queueLength (msgQueues k q) * itemSize (msgQueues k q)))"
proof -
  let ?mq = "msgQueues k q"
  let ?S = "itemSize ?mq"
  let ?L = "queueLength ?mq"
  let ?r = "writeIndex ?mq div ?S"
  have S0: "0 < ?S"
    using inside by (cases "?S = 0") simp_all
  have rS: "?r * ?S = writeIndex ?mq"
    using aligned by (simp add: mod_eq_0_iff_dvd)
  have rL: "?r < ?L"
    using inside S0 by (simp add: less_mult_imp_div_less)
  have h0: "ringHolds ?S ?L ?mq ?r []"
    using S0 rS rL empty same buf by (simp add: ringHolds_def)
  have pre: "\<And>i. i \<le> length xs \<Longrightarrow> \<exists>ki.
          msgQueueSendAll priv k q (take i xs) w = Some ki
        \<and> ringHolds ?S ?L (msgQueues ki q) ?r (take i xs)"
  proof -
    fix i assume i: "i \<le> length xs"
    have a: "length ([] :: 8 word list list) + length (take i xs) \<le> ?L"
      using i n by simp
    have b: "\<forall>x \<in> set (take i xs). length x = ?S"
      using sizes by (auto dest: in_set_takeD)
    from msgQueueSendAll_holds [OF h0 a b, of priv w]
    show "\<exists>ki. msgQueueSendAll priv k q (take i xs) w = Some ki
        \<and> ringHolds ?S ?L (msgQueues ki q) ?r (take i xs)"
      by simp
  qed
  from pre [of "length xs"] obtain k1 where
    s1: "msgQueueSendAll priv k q xs w = Some k1"
    and h1: "ringHolds ?S ?L (msgQueues k1 q) ?r xs"
    by auto
  have post: "\<And>j. j \<le> length xs \<Longrightarrow> \<exists>kj.
          msgQueueReceiveN priv k1 q j w' = Some (take j xs, kj)
        \<and> ringHolds ?S ?L (msgQueues kj q) ((?r + j) mod ?L) (drop j xs)"
    using msgQueueReceiveN_holds [OF h1] by blast
  from post [of "length xs"] obtain k2 where
    r2: "msgQueueReceiveN priv k1 q (length xs) w' = Some (xs, k2)"
    by auto
  have sends: "\<forall>i \<le> length xs. \<exists>ki.
          msgQueueSendAll priv k q (take i xs) w = Some ki
        \<and> itemCount (msgQueues ki q) = i
        \<and> writeIndex (msgQueues ki q) = (writeIndex ?mq + i * ?S) mod (?L * ?S)
        \<and> readIndex (msgQueues ki q) = readIndex ?mq"
  proof (intro allI impI)
    fix i assume i: "i \<le> length xs"
    from pre [OF i] obtain ki where
      si: "msgQueueSendAll priv k q (take i xs) w = Some ki"
      and hi: "ringHolds ?S ?L (msgQueues ki q) ?r (take i xs)"
      by blast
    from ringHolds_indices(1,2,3) [OF hi] i rS same
    have "itemCount (msgQueues ki q) = i
        \<and> writeIndex (msgQueues ki q) = (writeIndex ?mq + i * ?S) mod (?L * ?S)
        \<and> readIndex (msgQueues ki q) = readIndex ?mq"
      by simp
    with si show "\<exists>ki. msgQueueSendAll priv k q (take i xs) w = Some ki
        \<and> itemCount (msgQueues ki q) = i
        \<and> writeIndex (msgQueues ki q) = (writeIndex ?mq + i * ?S) mod (?L * ?S)
        \<and> readIndex (msgQueues ki q) = readIndex ?mq"
      by blast
  qed
  have recvs: "\<forall>j \<le> length xs. \<exists>kj.
          msgQueueReceiveN priv k1 q j w' = Some (take j xs, kj)
        \<and> itemCount (msgQueues kj q) = length xs - j
        \<and> readIndex (msgQueues kj q) = (readIndex ?mq + j * ?S) mod (?L * ?S)"
  proof (intro allI impI)
    fix j assume j: "j \<le> length xs"
    from post [OF j] obtain kj where
      rj: "msgQueueReceiveN priv k1 q j w' = Some (take j xs, kj)"
      and hj: "ringHolds ?S ?L (msgQueues kj q) ((?r + j) mod ?L) (drop j xs)"
      by blast
    from ringHolds_indices(1,2) [OF hj] rS same
    have "itemCount (msgQueues kj q) = length xs - j
        \<and> readIndex (msgQueues kj q) = (readIndex ?mq + j * ?S) mod (?L * ?S)"
      by (simp add: ring_index_eq)
    with rj show "\<exists>kj. msgQueueReceiveN priv k1 q j w' = Some (take j xs, kj)
        \<and> itemCount (msgQueues kj q) = length xs - j
        \<and> readIndex (msgQueues kj q) = (readIndex ?mq + j * ?S) mod (?L * ?S)"
      by blast
  qed
  show ?thesis
    using s1 r2 sends recvs by blast
qed

lemma demoQueue_facts:
  "msgQueues demoQueue 0 = \<lparr>buffer = [0, 0, 0, 0, 0, 0], queueLength = 3, itemSize = 2,
     itemCount = 0, readIndex = 4, writeIndex = 4, producerWaitQueue = [],
     consumerWaitQueue = []\<rparr>"
  by (simp add: demoQueue_def)

theorem msgQueue_roundtrip_witness:
  "itemCount (msgQueues demoQueue 0) = 0
   \<and> readIndex (msgQueues demoQueue 0) = writeIndex (msgQueues demoQueue 0)
   \<and> writeIndex (msgQueues demoQueue 0)
        < queueLength (msgQueues demoQueue 0) * itemSize (msgQueues demoQueue 0)
   \<and> writeIndex (msgQueues demoQueue 0) mod itemSize (msgQueues demoQueue 0) = 0
   \<and> length (buffer (msgQueues demoQueue 0))
        = queueLength (msgQueues demoQueue 0) * itemSize (msgQueues demoQueue 0)
   \<and> length [[1, 2], [3, 4], [5, 6 :: 8 word]] \<le> queueLength (msgQueues demoQueue 0)
   \<and> (\<exists>k1 k2. msgQueueSendAll True demoQueue 0 [[1, 2], [3, 4], [5, 6]] 0 = Some k1
        \<and> msgQueueReceiveN True k1 0 3 0 = Some ([[1, 2], [3, 4], [5, 6]], k2))"
proof -
  let ?xs = "[[1, 2], [3, 4], [5, 6 :: 8 word]]"
  have a: "itemCount (msgQueues demoQueue 0) = 0"
    "readIndex (msgQueues demoQueue 0) = writeIndex (msgQueues demoQueue 0)"
    "writeIndex (msgQueues demoQueue 0)
        < queueLength (msgQueues demoQueue 0) * itemSize (msgQueues demoQueue 0)"
    "writeIndex (msgQueues demoQueue 0) mod itemSize (msgQueues demoQueue 0) = 0"
    "length (buffer (msgQueues demoQueue 0))
        = queueLength (msgQueues demoQueue 0) * itemSize (msgQueues demoQueue 0)"
    "length ?xs \<le> queueLength (msgQueues demoQueue 0)"
    "\<forall>x \<in> set ?xs. length x = itemSize (msgQueues demoQueue 0)"
    by (simp_all add: demoQueue_facts)
  have l: "length ?xs = 3" by simp
  from msgQueue_roundtrip [OF a, of True 0 0] obtain k1 k2 where
    s: "msgQueueSendAll True demoQueue 0 ?xs 0 = Some k1"
    and r: "msgQueueReceiveN True k1 0 (length ?xs) 0 = Some (?xs, k2)"
    by blast
  from r have "msgQueueReceiveN True k1 0 3 0 = Some (?xs, k2)"
    unfolding l .
  with s have "\<exists>k1 k2. msgQueueSendAll True demoQueue 0 ?xs 0 = Some k1
        \<and> msgQueueReceiveN True k1 0 3 0 = Some (?xs, k2)"
    by blast
  then show ?thesis
    using a(1-6) by blast
qed

section \<open>Condition variable (conditionVariable.c)\<close>

text \<open>
  \<^verbatim>\<open>condVarWait\<close> has three suspension points: the yield at the end of
  \<^verbatim>\<open>mutexUnlock\<close> when the unlock woke a task of equal or better priority, the block on
  the condition variable, and the block inside \<^verbatim>\<open>mutexLock\<close> when the mutex is held at
  the re-acquisition. It is modelled by one segment for each stretch between them. The
  return value of \<^verbatim>\<open>mutexUnlock\<close> and that of \<^verbatim>\<open>mutexLock\<close> are discarded, as in the C
  code.
\<close>

text \<open>From the call of \<^verbatim>\<open>taskQueueAdd\<close> to the block; entered when \<^verbatim>\<open>mutexUnlock\<close> has
  returned.\<close>

definition condVarWait_enqueue :: "bool \<Rightarrow> kernel \<Rightarrow> nat \<Rightarrow> 32 word \<Rightarrow> bool outcome" where
  "condVarWait_enqueue tasksRunPriv k cv waitTicks =
     (let cur = taskPool_currentTask k;
          k1 = k\<lparr>condVars := (condVars k)(cv := (condVars k cv)
                 \<lparr>condVarWaitQueue := taskQueueAdd (tasks k) (condVarWaitQueue (condVars k cv)) cur\<rparr>)\<rparr>
      in Suspended AfterCondVarBlock (taskBlock tasksRunPriv k1 cur WAIT_FOR_COND_VAR waitTicks))"

text \<open>From the entry of \<^verbatim>\<open>condVarWait\<close> to its first suspension point.\<close>

definition condVarWait :: "bool \<Rightarrow> bool \<Rightarrow> kernel \<Rightarrow> nat \<Rightarrow> 32 word \<Rightarrow> bool outcome" where
  "condVarWait usePriorityInheritance tasksRunPriv k cv waitTicks =
     (case pMutex (condVars k cv) of
        None \<Rightarrow> Returned False k
      | Some m \<Rightarrow>
          (let (retCode, contextSwitchRequired, k1) = mutexUnlock_critical usePriorityInheritance k m
           in if contextSwitchRequired
              then Suspended AfterMutexUnlockYield (taskYield tasksRunPriv k1)
              else condVarWait_enqueue tasksRunPriv k1 cv waitTicks))"

text \<open>The last statements of \<^verbatim>\<open>condVarWait\<close>, after \<^verbatim>\<open>mutexLock\<close> has returned; \<open>cur\<close> is
  the local \<^verbatim>\<open>currentTask\<close> of the call.\<close>

definition condVarWait_return :: "kernel \<Rightarrow> nat \<Rightarrow> bool outcome" where
  "condVarWait_return k cur =
     (if wakeupReason (tasks k cur) = WAIT_TIMEOUT then Returned False k else Returned True k)"

text \<open>
  From the wake-up after the block on the condition variable: the call
  \<^verbatim>\<open>mutexLock(pCondVar->pMutex, TASK_MAX_WAIT)\<close>, and the return if the lock does not block.
  A null mutex pointer fails the assertion of \<^verbatim>\<open>mutexLock\<close>.
\<close>

definition condVarWait_relock :: "bool \<Rightarrow> bool \<Rightarrow> kernel \<Rightarrow> nat \<Rightarrow> nat \<Rightarrow> bool outcome" where
  "condVarWait_relock usePriorityInheritance tasksRunPriv k cv cur =
     (case pMutex (condVars k cv) of
        None \<Rightarrow> Undefined
      | Some m \<Rightarrow>
          (case mutexLock usePriorityInheritance tasksRunPriv k m TASK_MAX_WAIT of
             Returned retCode k1 \<Rightarrow> condVarWait_return k1 cur
           | Suspended p k1 \<Rightarrow> Suspended p k1
           | Undefined \<Rightarrow> Undefined))"

text \<open>From the wake-up after the block inside \<^verbatim>\<open>mutexLock\<close>: the rest of \<^verbatim>\<open>mutexLock\<close>,
  then the return.\<close>

definition condVarWait_relocked :: "kernel \<Rightarrow> nat \<Rightarrow> nat \<Rightarrow> bool outcome" where
  "condVarWait_relocked k cv cur =
     (case pMutex (condVars k cv) of
        None \<Rightarrow> Undefined
      | Some m \<Rightarrow>
          (case mutexLock_resume k m cur of
             Returned retCode k1 \<Rightarrow> condVarWait_return k1 cur
           | Suspended p k1 \<Rightarrow> Suspended p k1
           | Undefined \<Rightarrow> Undefined))"

definition condVarSignal :: "kernel \<Rightarrow> nat \<Rightarrow> bool \<times> kernel" where
  "condVarSignal k cv =
     (let (nextSignalTask, wq) = taskQueueGet (condVarWaitQueue (condVars k cv));
          k1 = k\<lparr>condVars := (condVars k)(cv := (condVars k cv)\<lparr>condVarWaitQueue := wq\<rparr>)\<rparr>
      in case nextSignalTask of
           Some t \<Rightarrow> (True, taskSetReady k1 t COND_VAR_SIGNALLED)
         | None \<Rightarrow> (False, k1))"

text \<open>
  A run in which a wait on a condition variable times out and the mutex is held when the
  waiter comes back. Task 2 (priority 10) runs and owns mutex 0, which is the mutex of
  condition variable 0; task 3 (priority 20) is ready.
\<close>

definition demoCondVar :: kernel where
  "demoCondVar = demoKernel
     \<lparr>mutexes := (mutexes demoKernel)
        (0 := \<lparr>locked = True, ownerTask = Some 2, ownerDefaultPriority = - 1,
               mutexWaitQueue = []\<rparr>)\<rparr>"

text \<open>Task 2 waits on the condition variable for one tick; task 3 gets to run.\<close>

definition cvRun1 :: kernel where
  "cvRun1 = the (outcomeKernel (condVarWait True True demoCondVar 0 1))"

text \<open>Task 3 locks the mutex.\<close>

definition cvRun2 :: kernel where
  "cvRun2 = the (outcomeKernel (mutexLock True True cvRun1 0 TASK_NO_WAIT))"

text \<open>The tick: the wait of task 2 times out, and task 2 preempts task 3.\<close>

definition cvRun3 :: kernel where
  "cvRun3 = the (SYSTICK_HANDLER cvRun2)"

text \<open>Task 2 continues in \<^verbatim>\<open>condVarWait\<close> and blocks on the mutex; task 3 runs.\<close>

definition cvRun4 :: kernel where
  "cvRun4 = the (outcomeKernel (condVarWait_relock True True cvRun3 0 2))"

text \<open>Task 3 unlocks the mutex, which hands it to task 2; task 2 runs.\<close>

definition cvRun5 :: kernel where
  "cvRun5 = snd (mutexUnlock True True cvRun4 0)"



text \<open>Where a segment stopped, and what it returned.\<close>

definition outcomePoint :: "'r outcome \<Rightarrow> resumePoint option" where
  "outcomePoint out = (case out of Suspended p _ \<Rightarrow> Some p | _ \<Rightarrow> None)"

definition outcomeResult :: "'r outcome \<Rightarrow> 'r option" where
  "outcomeResult out = (case out of Returned r _ \<Rightarrow> Some r | _ \<Rightarrow> None)"

lemma condVarWait_return_iff:
  "outcomeResult (condVarWait_return k cur) = Some (wakeupReason (tasks k cur) \<noteq> WAIT_TIMEOUT)"
  by (simp add: condVarWait_return_def outcomeResult_def)

text \<open>
  The value \<^verbatim>\<open>condVarWait\<close> returns is read from \<^verbatim>\<open>wakeupReason\<close> after
  \<^verbatim>\<open>mutexLock\<close>. When the re-acquisition had to block, the field holds the reason of that
  second wake-up: a caller that was handed the mutex gets \<open>True\<close>, however its wait on the
  condition variable ended.
\<close>

lemma condVarWait_relocked_handover:
  assumes "pMutex (condVars k cv) = Some m" and "wakeupReason (tasks k cur) = MUTEX_LOCKED"
  shows "outcomeResult (condVarWait_relocked k cv cur) = Some True"
  using assms
  by (simp add: condVarWait_relocked_def mutexLock_resume_def condVarWait_return_def
      outcomeResult_def)

text \<open>
  C8. \<^verbatim>\<open>condVarWait\<close> is documented to return false when the wait timed out. In the run
  below it returns true after a timeout. Task 2 calls \<^verbatim>\<open>condVarWait\<close> on condition
  variable 0 with a wait of one tick: it unlocks mutex 0, is enqueued and blocks, and
  task 3 runs. Task 3 locks the mutex. The tick ends the wait of task 2 with wakeup
  reason WAIT_TIMEOUT and task 2 preempts task 3. Task 2 continues in \<^verbatim>\<open>condVarWait\<close>,
  finds the mutex held and blocks in \<^verbatim>\<open>mutexLock\<close>. Task 3 unlocks the mutex; the
  handover sets the wakeup reason of task 2 to MUTEX_LOCKED. Task 2 runs again, and
  \<^verbatim>\<open>condVarWait\<close> returns true.
\<close>

theorem condVarWait_timeout_returns_true:
  "outcomePoint (condVarWait True True demoCondVar 0 1) = Some AfterCondVarBlock
   \<and> taskPool_currentTask cvRun1 = 3
   \<and> outcomeResult (mutexLock True True cvRun1 0 TASK_NO_WAIT) = Some RET_SUCCESS
   \<and> map_option taskPool_currentTask (SYSTICK_HANDLER cvRun2) = Some 2
   \<and> wakeupReason (tasks cvRun3 2) = WAIT_TIMEOUT
   \<and> outcomePoint (condVarWait_relock True True cvRun3 0 2) = Some AfterMutexLockBlock
   \<and> taskPool_currentTask cvRun4 = 3
   \<and> fst (mutexUnlock True True cvRun4 0) = RET_SUCCESS
   \<and> taskPool_currentTask cvRun5 = 2
   \<and> wakeupReason (tasks cvRun5 2) = MUTEX_LOCKED
   \<and> outcomeResult (condVarWait_relocked cvRun5 0 2) = Some True"
  by code_simp

section \<open>The tick handler as a whole\<close>

text \<open>The three steps of \<^verbatim>\<open>SYSTICK_HANDLER\<close>: on an empty blocked list the timeout check
  it skips would change nothing.\<close>

lemma SYSTICK_HANDLER_steps:
  "SYSTICK_HANDLER k =
     (case processTimers k of
        None \<Rightarrow> None
      | Some k1 \<Rightarrow> Some (scheduleNextTask (checkTimeout k1)))"
  by (simp add: SYSTICK_HANDLER_def taskQueueEmpty_def checkTimeout_def split: option.splits)

text \<open>
  C6 (amended). On every tick the handler runs the timer step, then the timeout check
  \<^verbatim>\<open>checkTimeout\<close> (the decrement step), then the scheduling decision. The timeout check
  treats every task \<open>t\<close> on the blocked-timeout list (on which, by invariant I1, no task
  stands twice) as follows. With \<open>remainingSleepTicks > 0\<close> the counter is decremented;
  when it reaches 0 the task is set ready (READY, on the ready queue, off the blocked
  list) with wakeup reason SLEEP_TIME_TIMEOUT if its block reason is SLEEP and
  WAIT_TIMEOUT otherwise, and when it stays positive nothing else about the task changes.
  With \<open>remainingSleepTicks = 0\<close> (blocked with no timeout) the task is left untouched by
  the decrement step: its control block is unchanged and it stays on the blocked list.
\<close>

theorem checkTimeout_tick:
  assumes "distinct (blockedQueue k)" and "t \<in> set (blockedQueue k)"
  shows "(let r = remainingSleepTicks (tasks k t); tcb = tasks k t; k' = checkTimeout k in
     (r = 0 \<longrightarrow> tasks k' t = tcb \<and> t \<in> set (blockedQueue k')
                \<and> (t \<in> set (readyQueue k')) = (t \<in> set (readyQueue k)))
     \<and> (r = 1 \<longrightarrow>
          tasks k' t = tcb\<lparr>remainingSleepTicks := 0, status := TASK_STATUS_READY,
             wakeupReason := (if blockedReason tcb = SLEEP then SLEEP_TIME_TIMEOUT else WAIT_TIMEOUT)\<rparr>
          \<and> t \<in> set (readyQueue k') \<and> t \<notin> set (blockedQueue k'))
     \<and> (1 < r \<longrightarrow> tasks k' t = tcb\<lparr>remainingSleepTicks := r - 1\<rparr>
                \<and> t \<in> set (blockedQueue k')
                \<and> (t \<in> set (readyQueue k')) = (t \<in> set (readyQueue k))))
     \<and> SYSTICK_HANDLER k0 =
         (case processTimers k0 of
            None \<Rightarrow> None
          | Some k1 \<Rightarrow> Some (scheduleNextTask (checkTimeout k1)))"
  using checkTimeout_effect [OF assms] SYSTICK_HANDLER_steps [of k0] by simp

theorem checkTimeout_tick_witness:
  "distinct (blockedQueue demoSleepers) \<and> 3 \<in> set (blockedQueue demoSleepers)
   \<and> remainingSleepTicks (tasks demoSleepers 3) = 1
   \<and> status (tasks (checkTimeout demoSleepers) 3) = TASK_STATUS_READY
   \<and> wakeupReason (tasks (checkTimeout demoSleepers) 3) = WAIT_TIMEOUT
   \<and> 3 \<in> set (readyQueue (checkTimeout demoSleepers))
   \<and> 3 \<notin> set (blockedQueue (checkTimeout demoSleepers))
   \<and> remainingSleepTicks (tasks (checkTimeout demoSleepers) 4) = 4
   \<and> tasks (checkTimeout demoSleepers) 0 = tasks demoSleepers 0
   \<and> 0 \<in> set (blockedQueue (checkTimeout demoSleepers))"
proof -
  have d: "distinct (blockedQueue demoSleepers)"
    by (simp add: demoSleepers_def)
  have m: "3 \<in> set (blockedQueue demoSleepers)" "4 \<in> set (blockedQueue demoSleepers)"
    "0 \<in> set (blockedQueue demoSleepers)"
    by (simp_all add: demoSleepers_def)
  have r: "remainingSleepTicks (tasks demoSleepers 3) = 1"
    "remainingSleepTicks (tasks demoSleepers 4) = 5"
    "remainingSleepTicks (tasks demoSleepers 0) = 0"
    "blockedReason (tasks demoSleepers 3) = WAIT_FOR_SEMAPHORE"
    by (simp_all add: demoSleepers_def demoKernel_def demoTasks_def mkTask_def)
  show ?thesis
    using checkTimeout_tick [OF d m(1)] checkTimeout_tick [OF d m(2)]
      checkTimeout_tick [OF d m(3)] d m r
    by (simp add: Let_def)
qed

text \<open>
  The claim as stated, with the task left untouched by the tick, fails for the timer
  task. In \<open>demoTimers\<close> the timer task is BLOCKED on the blocked-timeout list with
  \<open>remainingSleepTicks = 0\<close> and two timers expire on the tick: the timer step of the tick
  wakes the timer task, which is off the blocked list and RUNNING when the handler
  returns.
\<close>

theorem tick_wakes_timerTask_counterexample:
  "timerTask \<in> set (blockedQueue demoTimers)
   \<and> remainingSleepTicks (tasks demoTimers timerTask) = 0
   \<and> status (tasks demoTimers timerTask) = TASK_STATUS_BLOCKED
   \<and> map_option (\<lambda>k. status (tasks k timerTask)) (SYSTICK_HANDLER demoTimers)
        = Some TASK_STATUS_RUNNING
   \<and> map_option (\<lambda>k. wakeupReason (tasks k timerTask)) (SYSTICK_HANDLER demoTimers)
        = Some TIMER_TIMEOUT
   \<and> map_option (\<lambda>k. timerTask \<in> set (blockedQueue k)) (SYSTICK_HANDLER demoTimers)
        = Some False
   \<and> map_option (\<lambda>k. tasks k timerTask = tasks demoTimers timerTask) (SYSTICK_HANDLER demoTimers)
        = Some False"
  by code_simp


section \<open>Priority inheritance and a failed lock\<close>

text \<open>
  The priorities of the tasks and the recorded default priorities of the mutexes: the
  part of the state that priority inheritance writes. The tick handler, with its timer
  step, its timeout check and its scheduling decision, never changes it.
\<close>

definition priorityView :: "kernel \<Rightarrow> (nat \<Rightarrow> 8 word) \<times> (nat \<Rightarrow> int)" where
  "priorityView k = (\<lambda>t. priority (tasks k t), \<lambda>m. ownerDefaultPriority (mutexes k m))"

lemma priorityView_taskSetReady:
  "priorityView (taskSetReady k t wr) = priorityView k"
  by (simp add: priorityView_def taskSetReady_priority taskSetReady_mutexes)


























end
